theory Spec2Isabelle
  imports Main
begin

section \<open>The order status monitor of the bot (services/order-monitor.ts)\<close>

text \<open>
  The monitor keeps a \<^verbatim>\<open>Map<string, TrackedOrder>\<close> of orders under observation, polls an
  injected status provider for the orders that are due, writes every status change back
  through an injected persistence function and reports it through an injected callback.

  JavaScript numbers that hold millisecond timestamps, ages and counters are modelled as
  \<^typ>\<open>int\<close>; a \<^verbatim>\<open>Date\<close> is its \<^verbatim>\<open>getTime()\<close> value. Strings are \<^typ>\<open>string\<close>. A promise that
  rejects and a call that throws are the left injection of a sum.
\<close>

subsection \<open>Types\<close>

datatype error = Error string

text \<open>\<^verbatim>\<open>SideShiftOrderStatus\<close> (sideshift-client.ts). The monitor reads \<^verbatim>\<open>status\<close> only.\<close>

record Address =
  address :: string
  memo :: "string option"

record SideShiftOrderStatus =
  id :: string
  status :: string
  depositCoin :: string
  depositNetwork :: string
  settleCoin :: string
  settleNetwork :: string
  depositAddress :: Address
  settleAddress :: Address
  depositAmount :: "string option"
  settleAmount :: "string option"
  depositHash :: "string option"
  settleHash :: "string option"
  createdAt :: string
  updatedAt :: string
  error :: "(string \<times> string) option"

text \<open>
  A row of the \<^verbatim>\<open>orders\<close> table (database.ts), with the columns that
  \<^verbatim>\<open>loadPendingOrders\<close> reads. \<^verbatim>\<open>created_at\<close> is nullable.
\<close>

record Order =
  sideshiftOrderId :: string
  telegramId :: int
  createdAt :: "int option"
  status :: string

text \<open>\<^verbatim>\<open>interface TrackedOrder\<close>.\<close>

record TrackedOrder =
  orderId :: string
  telegramId :: int
  createdAt :: int
  lastChecked :: int
  lastStatus :: string

text \<open>
  What a call of \<^verbatim>\<open>onStatusChange\<close> does. The callback type returns \<^verbatim>\<open>void\<close> and
  \<^verbatim>\<open>pollOrder\<close> does not await it: an \<^verbatim>\<open>async\<close> callback (the one bot.ts passes is) hands
  back a promise, and whether that promise later rejects is invisible to the caller.
\<close>

datatype callback_result = Returns | ReturnsRejectedPromise error | Throws error

text \<open>
  \<^verbatim>\<open>interface OrderMonitorDeps\<close>: the injected collaborators. A value of this record is
  the behaviour of the collaborators during one run of the code under study; successive
  runs may be given different values.
\<close>

record OrderMonitorDeps =
  getOrderStatus :: "string \<Rightarrow> error + SideShiftOrderStatus"
  updateOrderStatus :: "string \<Rightarrow> string \<Rightarrow> error + unit"
  getPendingOrders :: "error + Order list"
  onStatusChange :: "int \<Rightarrow> string \<Rightarrow> string \<Rightarrow> string \<Rightarrow> SideShiftOrderStatus \<Rightarrow> callback_result"

text \<open>
  The calls the monitor makes on its collaborators and on \<^verbatim>\<open>console.error\<close>, in the order
  it makes them (\<^verbatim>\<open>console.log\<close> lines are left out).
\<close>

datatype effect =
    GetOrderStatus string
  | UpdateOrderStatus string string
  | OnStatusChange int string string string SideShiftOrderStatus
  | GetPendingOrders
  | ConsoleError string

text \<open>
  The state of an \<^verbatim>\<open>OrderMonitor\<close>. \<^verbatim>\<open>TrackedOrder\<close> values are JavaScript objects: the map
  holds references to them, and so does every poll that is under way. The objects live in
  a store indexed by reference; \<open>nextRef\<close> is the next unused reference. The map keeps
  insertion order, as \<^verbatim>\<open>Map\<close> does, so it is a list of key and reference. \<open>tickTimer\<close>
  says whether the interval timer is set. \<open>effects\<close> records the calls made so far.
\<close>

type_synonym ref = nat

record OrderMonitor =
  objects :: "ref \<Rightarrow> TrackedOrder"
  nextRef :: ref
  tracked :: "(string \<times> ref) list"
  tickTimer :: bool
  activePollCount :: int
  effects :: "effect list"

subsection \<open>Constants\<close>

definition TERMINAL_STATUSES :: "string set" where
  "TERMINAL_STATUSES = {''settled'', ''expired'', ''refunded'', ''failed''}"

definition MAX_CONCURRENT :: int where
  "MAX_CONCURRENT = 5"

definition TICK_INTERVAL :: int where
  "TICK_INTERVAL = 10000"

subsection \<open>Backoff\<close>

definition getBackoffInterval :: "int \<Rightarrow> int" where
  "getBackoffInterval ageMs =
     (if ageMs < 5 * 60000 then 15000
      else if ageMs < 30 * 60000 then 60000
      else if ageMs < 2 * 3600000 then 5 * 60000
      else 15 * 60000)"

subsection \<open>The map of tracked orders\<close>

text \<open>\<^verbatim>\<open>Map.prototype.get\<close>, \<^verbatim>\<open>has\<close> and \<^verbatim>\<open>size\<close> on \<^verbatim>\<open>this.tracked\<close>.\<close>

definition tracked_get :: "OrderMonitor \<Rightarrow> string \<Rightarrow> ref option" where
  "tracked_get m k = map_of (tracked m) k"

definition tracked_has :: "OrderMonitor \<Rightarrow> string \<Rightarrow> bool" where
  "tracked_has m k = (tracked_get m k \<noteq> None)"

definition trackedCount :: "OrderMonitor \<Rightarrow> int" where
  "trackedCount m = int (length (tracked m))"

definition getTrackedOrderIds :: "OrderMonitor \<Rightarrow> string list" where
  "getTrackedOrderIds m = map fst (tracked m)"

text \<open>The entry of an order id: the object the map holds for it, if any.\<close>

definition entry :: "OrderMonitor \<Rightarrow> string \<Rightarrow> TrackedOrder option" where
  "entry m k = map_option (objects m) (tracked_get m k)"

text \<open>\<^verbatim>\<open>new OrderMonitor(deps)\<close>. No object is allocated yet; the store's content is arbitrary.\<close>

definition blank :: TrackedOrder where
  "blank = \<lparr>orderId = [], telegramId = 0, createdAt = 0, lastChecked = 0, lastStatus = []\<rparr>"

definition newOrderMonitor :: OrderMonitor where
  "newOrderMonitor =
     \<lparr>objects = (\<lambda>_. blank), nextRef = 0, tracked = [], tickTimer = False,
      activePollCount = 0, effects = []\<rparr>"

subsection \<open>Public operations\<close>

definition start :: "OrderMonitor \<Rightarrow> OrderMonitor" where
  "start m = (if tickTimer m then m else m\<lparr>tickTimer := True\<rparr>)"

definition stop :: "OrderMonitor \<Rightarrow> OrderMonitor" where
  "stop m = (if tickTimer m then m\<lparr>tickTimer := False\<rparr> else m)"

text \<open>
  \<^verbatim>\<open>trackOrder(orderId, telegramId, createdAt?)\<close>; \<open>now\<close> is what \<^verbatim>\<open>new Date()\<close> reads when
  \<^verbatim>\<open>createdAt\<close> is missing. A new key goes to the end of the map.
\<close>

definition trackOrder :: "string \<Rightarrow> int \<Rightarrow> int option \<Rightarrow> int \<Rightarrow> OrderMonitor \<Rightarrow> OrderMonitor" where
  "trackOrder oid tid created now m =
     (if tracked_has m oid then m
      else m\<lparr>objects := (objects m)(nextRef m :=
                 \<lparr>orderId = oid, telegramId = tid,
                  createdAt = (case created of Some d \<Rightarrow> d | None \<Rightarrow> now),
                  lastChecked = 0, lastStatus = ''pending''\<rparr>),
             nextRef := Suc (nextRef m),
             tracked := tracked m @ [(oid, nextRef m)]\<rparr>)"

definition untrackOrder :: "string \<Rightarrow> OrderMonitor \<Rightarrow> OrderMonitor" where
  "untrackOrder oid m = m\<lparr>tracked := filter (\<lambda>kr. fst kr \<noteq> oid) (tracked m)\<rparr>"

text \<open>
  \<^verbatim>\<open>loadPendingOrders()\<close>. The loop is synchronous, so every \<^verbatim>\<open>new Date()\<close> in it is given the
  same reading \<open>now\<close>. A rejected \<^verbatim>\<open>getPendingOrders\<close> is caught and logged.
\<close>

definition loadOne :: "int \<Rightarrow> Order \<Rightarrow> OrderMonitor \<Rightarrow> OrderMonitor" where
  "loadOne now order m =
     (let m1 = trackOrder (sideshiftOrderId order) (Order.telegramId order)
                 (Order.createdAt order) now m
      in case tracked_get m1 (sideshiftOrderId order) of
           Some r \<Rightarrow> m1\<lparr>objects := (objects m1)(r := (objects m1 r)\<lparr>lastStatus := Order.status order\<rparr>)\<rparr>
         | None \<Rightarrow> m1)"

definition call :: "effect \<Rightarrow> OrderMonitor \<Rightarrow> OrderMonitor" where
  "call e m = m\<lparr>effects := effects m @ [e]\<rparr>"

definition loadPendingOrders :: "OrderMonitorDeps \<Rightarrow> int \<Rightarrow> OrderMonitor \<Rightarrow> OrderMonitor" where
  "loadPendingOrders deps now m =
     (case getPendingOrders deps of
        Inr pendingOrders \<Rightarrow> fold (loadOne now) pendingOrders (call GetPendingOrders m)
      | Inl e \<Rightarrow> call (ConsoleError ''Failed to load pending orders'') (call GetPendingOrders m))"

subsection \<open>Polling one order\<close>

text \<open>
  \<^verbatim>\<open>pollOrder(order)\<close>, run from its call to its end with nothing else in between. \<open>order\<close>
  is the reference the caller holds, \<open>t\<close> is what \<^verbatim>\<open>Date.now()\<close> reads once the status fetch
  has resolved. The \<^verbatim>\<open>catch\<close> block covers the fetch, the write and the callback alike; the
  \<^verbatim>\<open>finally\<close> block is the last line.
\<close>

definition pollOrder :: "OrderMonitorDeps \<Rightarrow> int \<Rightarrow> ref \<Rightarrow> OrderMonitor \<Rightarrow> OrderMonitor" where
  "pollOrder deps t order m =
     (let oid = orderId (objects m order);
          tid = telegramId (objects m order);
          m1 = call (GetOrderStatus oid) (m\<lparr>activePollCount := activePollCount m + 1\<rparr>);
          m9 =
            (case getOrderStatus deps oid of
               Inl e \<Rightarrow> call (ConsoleError oid) m1
             | Inr st \<Rightarrow>
                 let m2 = m1\<lparr>objects := (objects m1)(order := (objects m1 order)\<lparr>lastChecked := t\<rparr>)\<rparr>;
                     newStatus = SideShiftOrderStatus.status st;
                     oldStatus = lastStatus (objects m2 order)
                 in if newStatus \<noteq> oldStatus then
                      let m3 = m2\<lparr>objects := (objects m2)(order := (objects m2 order)\<lparr>lastStatus := newStatus\<rparr>)\<rparr>;
                          m4 = call (UpdateOrderStatus oid newStatus) m3
                      in (case updateOrderStatus deps oid newStatus of
                            Inl e \<Rightarrow> call (ConsoleError oid) m4
                          | Inr u \<Rightarrow>
                              let m5 = call (OnStatusChange tid oid oldStatus newStatus st) m4
                              in (case onStatusChange deps tid oid oldStatus newStatus st of
                                    Throws e \<Rightarrow> call (ConsoleError oid) m5
                                  | Returns \<Rightarrow>
                                      if newStatus \<in> TERMINAL_STATUSES then untrackOrder oid m5 else m5
                                  | ReturnsRejectedPromise e \<Rightarrow>
                                      if newStatus \<in> TERMINAL_STATUSES then untrackOrder oid m5 else m5))
                    else m2)
      in m9\<lparr>activePollCount := activePollCount m9 - 1\<rparr>)"

text \<open>
  The same function cut at its two \<^verbatim>\<open>await\<close>s, for runs in which other code executes while a
  poll is suspended. \<open>pollOrder_enter\<close> is the part before the first \<^verbatim>\<open>await\<close>,
  \<open>pollOrder_fetched\<close> resumes with the outcome of the fetch, \<open>pollOrder_written\<close> with the
  outcome of the write and what the callback will do.
\<close>

datatype suspended =
    AwaitFetch ref
  | AwaitWrite ref string string SideShiftOrderStatus

definition pollOrder_enter :: "ref \<Rightarrow> OrderMonitor \<Rightarrow> OrderMonitor" where
  "pollOrder_enter order m =
     call (GetOrderStatus (orderId (objects m order))) (m\<lparr>activePollCount := activePollCount m + 1\<rparr>)"

definition pollOrder_finally :: "OrderMonitor \<Rightarrow> OrderMonitor" where
  "pollOrder_finally m = m\<lparr>activePollCount := activePollCount m - 1\<rparr>"

definition pollOrder_fetched ::
  "int \<Rightarrow> ref \<Rightarrow> error + SideShiftOrderStatus \<Rightarrow> OrderMonitor \<Rightarrow> OrderMonitor \<times> suspended option" where
  "pollOrder_fetched t order res m =
     (let oid = orderId (objects m order)
      in case res of
           Inl e \<Rightarrow> (pollOrder_finally (call (ConsoleError oid) m), None)
         | Inr st \<Rightarrow>
             let m2 = m\<lparr>objects := (objects m)(order := (objects m order)\<lparr>lastChecked := t\<rparr>)\<rparr>;
                 newStatus = SideShiftOrderStatus.status st;
                 oldStatus = lastStatus (objects m2 order)
             in if newStatus \<noteq> oldStatus then
                  let m3 = m2\<lparr>objects := (objects m2)(order := (objects m2 order)\<lparr>lastStatus := newStatus\<rparr>)\<rparr>
                  in (call (UpdateOrderStatus oid newStatus) m3,
                      Some (AwaitWrite order oldStatus newStatus st))
                else (pollOrder_finally m2, None))"

definition pollOrder_written ::
  "ref \<Rightarrow> string \<Rightarrow> string \<Rightarrow> SideShiftOrderStatus \<Rightarrow> error + unit \<Rightarrow> callback_result
     \<Rightarrow> OrderMonitor \<Rightarrow> OrderMonitor" where
  "pollOrder_written order oldStatus newStatus st res cb m =
     (let oid = orderId (objects m order);
          tid = telegramId (objects m order)
      in case res of
           Inl e \<Rightarrow> pollOrder_finally (call (ConsoleError oid) m)
         | Inr u \<Rightarrow>
             let m5 = call (OnStatusChange tid oid oldStatus newStatus st) m
             in (case cb of
                   Throws e \<Rightarrow> pollOrder_finally (call (ConsoleError oid) m5)
                 | Returns \<Rightarrow>
                     pollOrder_finally
                       (if newStatus \<in> TERMINAL_STATUSES then untrackOrder oid m5 else m5)
                 | ReturnsRejectedPromise e \<Rightarrow>
                     pollOrder_finally
                       (if newStatus \<in> TERMINAL_STATUSES then untrackOrder oid m5 else m5)))"

text \<open>A poll that has been entered, run to its end against \<open>deps\<close>.\<close>

definition pollOrder_settle :: "OrderMonitorDeps \<Rightarrow> int \<Rightarrow> ref \<Rightarrow> OrderMonitor \<Rightarrow> OrderMonitor" where
  "pollOrder_settle deps t order m =
     (let oid = orderId (objects m order);
          tid = telegramId (objects m order)
      in case pollOrder_fetched t order (getOrderStatus deps oid) m of
           (m', None) \<Rightarrow> m'
         | (m', Some (AwaitFetch r)) \<Rightarrow> m'
         | (m', Some (AwaitWrite r oldStatus newStatus st)) \<Rightarrow>
             pollOrder_written r oldStatus newStatus st (updateOrderStatus deps oid newStatus)
               (onStatusChange deps tid oid oldStatus newStatus st) m')"

subsection \<open>The tick\<close>

text \<open>
  \<^verbatim>\<open>Array.prototype.slice(0, end)\<close>: a negative \<open>end\<close> counts from the end of the array.
\<close>

definition slice0 :: "int \<Rightarrow> 'a list \<Rightarrow> 'a list" where
  "slice0 end xs =
     (if end < 0 then take (nat (max (int (length xs) + end) 0)) xs
      else take (nat (min end (int (length xs)))) xs)"

definition due :: "int \<Rightarrow> TrackedOrder \<Rightarrow> bool" where
  "due now order =
     (let ageMs = now - createdAt order;
          interval = getBackoffInterval ageMs;
          elapsed = now - lastChecked order
      in elapsed \<ge> interval)"

definition toPoll :: "int \<Rightarrow> OrderMonitor \<Rightarrow> ref list" where
  "toPoll now m = filter (\<lambda>r. due now (objects m r)) (map snd (tracked m))"

definition batch :: "int \<Rightarrow> OrderMonitor \<Rightarrow> ref list" where
  "batch now m =
     (if toPoll now m = [] then []
      else slice0 (MAX_CONCURRENT - activePollCount m) (toPoll now m))"

text \<open>
  The synchronous part of \<^verbatim>\<open>tick()\<close>: \<^verbatim>\<open>batch.map(order => this.pollOrder(order))\<close> enters every
  poll of the batch, each up to its first \<^verbatim>\<open>await\<close>.
\<close>

definition tick_dispatch :: "int \<Rightarrow> OrderMonitor \<Rightarrow> OrderMonitor" where
  "tick_dispatch now m = fold pollOrder_enter (batch now m) m"

text \<open>
  Resuming a suspended poll against \<open>deps\<close>: the outcome of the call it awaits is what \<open>deps\<close>
  gives for the order, and \<open>clock r\<close> is what \<^verbatim>\<open>Date.now()\<close> reads when the fetch for \<open>r\<close> has
  resolved. The result is the new state and the poll itself if it is suspended again.
\<close>

fun ref_of :: "suspended \<Rightarrow> ref" where
  "ref_of (AwaitFetch r) = r"
| "ref_of (AwaitWrite r oldStatus newStatus st) = r"

fun resume ::
  "OrderMonitorDeps \<Rightarrow> (ref \<Rightarrow> int) \<Rightarrow> suspended \<Rightarrow> OrderMonitor \<Rightarrow> OrderMonitor \<times> suspended option" where
  "resume deps clock (AwaitFetch r) m =
     pollOrder_fetched (clock r) r (getOrderStatus deps (orderId (objects m r))) m"
| "resume deps clock (AwaitWrite r oldStatus newStatus st) m =
     (pollOrder_written r oldStatus newStatus st
        (updateOrderStatus deps (orderId (objects m r)) newStatus)
        (onStatusChange deps (telegramId (objects m r)) (orderId (objects m r))
           oldStatus newStatus st) m,
      None)"

text \<open>
  One round: every suspended poll of the list is resumed once, in the order of the list;
  the polls that are suspended again are handed back in that order.
\<close>

fun resume_all ::
  "OrderMonitorDeps \<Rightarrow> (ref \<Rightarrow> int) \<Rightarrow> suspended list \<Rightarrow> OrderMonitor
     \<Rightarrow> OrderMonitor \<times> suspended list" where
  "resume_all deps clock [] m = (m, [])"
| "resume_all deps clock (p # ps) m =
     (case resume deps clock p m of
        (m1, c) \<Rightarrow>
          (case resume_all deps clock ps m1 of
             (m2, qs) \<Rightarrow> (m2, (case c of None \<Rightarrow> [] | Some q \<Rightarrow> [q]) @ qs)))"

text \<open>
  A whole \<^verbatim>\<open>tick()\<close> with nothing else in between, every awaited promise settling in the
  order in which the calls were made (the settled promises of the test file's mocks do):
  the polls of the batch are entered, then each resumes from its fetch in the order of the
  batch, up to its awaited write or to its end, then each poll that awaits its write resumes
  and ends. \<^verbatim>\<open>pollOrder\<close> catches every error, so \<^verbatim>\<open>Promise.allSettled\<close> sees fulfilled promises
  only, and the tick ends when the last poll has ended.
\<close>

definition tick :: "OrderMonitorDeps \<Rightarrow> int \<Rightarrow> (ref \<Rightarrow> int) \<Rightarrow> OrderMonitor \<Rightarrow> OrderMonitor" where
  "tick deps now clock m =
     (if toPoll now m = [] then m
      else if batch now m = [] then m
      else case resume_all deps clock (map AwaitFetch (batch now m)) (tick_dispatch now m) of
             (m1, writing) \<Rightarrow> fst (resume_all deps clock writing m1))"

subsection \<open>Interleaved runs\<close>

text \<open>
  The monitor runs on one thread; other code runs only while a poll is suspended at an
  \<^verbatim>\<open>await\<close>. A configuration is the monitor's state and the polls that are suspended. A step
  is a timer tick (its synchronous part), the resumption of one suspended poll with any
  outcome, or a call of the public interface by the host.
\<close>

type_synonym config = "OrderMonitor \<times> suspended list"

inductive step :: "config \<Rightarrow> config \<Rightarrow> bool" where
  step_tick:
    "tickTimer m \<Longrightarrow> step (m, ps) (tick_dispatch now m, ps @ map AwaitFetch (batch now m))"
| step_fetched:
    "i < length ps \<Longrightarrow> ps ! i = AwaitFetch r \<Longrightarrow> pollOrder_fetched t r res m = (m', c) \<Longrightarrow>
     step (m, ps) (m', (case c of None \<Rightarrow> take i ps @ drop (Suc i) ps | Some p \<Rightarrow> ps[i := p]))"
| step_written:
    "i < length ps \<Longrightarrow> ps ! i = AwaitWrite r oldStatus newStatus st \<Longrightarrow>
     step (m, ps) (pollOrder_written r oldStatus newStatus st res cb m, take i ps @ drop (Suc i) ps)"
| step_start: "step (m, ps) (start m, ps)"
| step_stop: "step (m, ps) (stop m, ps)"
| step_trackOrder: "step (m, ps) (trackOrder oid tid created now m, ps)"
| step_untrackOrder: "step (m, ps) (untrackOrder oid m, ps)"
| step_loadPendingOrders: "step (m, ps) (loadPendingOrders deps now m, ps)"

inductive reachable :: "config \<Rightarrow> bool" where
  reachable_new: "reachable (newOrderMonitor, [])"
| reachable_step: "reachable s \<Longrightarrow> step s s' \<Longrightarrow> reachable s'"

text \<open>
  Well-formed states: the keys of the map are distinct, and every reference in it is
  allocated and leads to the object that carries its key.
\<close>

definition wf :: "OrderMonitor \<Rightarrow> bool" where
  "wf m \<longleftrightarrow>
     distinct (map fst (tracked m)) \<and>
     (\<forall>kr \<in> set (tracked m). snd kr < nextRef m \<and> orderId (objects m (snd kr)) = fst kr)"

text \<open>The notifications among the calls made so far.\<close>

fun is_notification :: "effect \<Rightarrow> bool" where
  "is_notification (OnStatusChange tid oid old new st) = True"
| "is_notification _ = False"

fun is_write :: "effect \<Rightarrow> bool" where
  "is_write (UpdateOrderStatus oid new) = True"
| "is_write _ = False"

text \<open>The calls that concern one order id.\<close>

fun about :: "string \<Rightarrow> effect \<Rightarrow> bool" where
  "about k (GetOrderStatus oid) = (oid = k)"
| "about k (UpdateOrderStatus oid new) = (oid = k)"
| "about k (OnStatusChange tid oid old new st) = (oid = k)"
| "about k GetPendingOrders = False"
| "about k (ConsoleError oid) = (oid = k)"

text \<open>
  What a state holds for one order: the object behind the reference, whether the map has
  the entry, and the calls made for the order id so far.
\<close>

definition view :: "string \<Rightarrow> ref \<Rightarrow> OrderMonitor \<Rightarrow> TrackedOrder \<times> bool \<times> effect list" where
  "view k r m = (objects m r, (k, r) \<in> set (tracked m), filter (about k) (effects m))"

text \<open>The calls made between two states of a run.\<close>

definition emitted :: "OrderMonitor \<Rightarrow> OrderMonitor \<Rightarrow> effect list" where
  "emitted m m' = drop (length (effects m)) (effects m')"

fun throws :: "callback_result \<Rightarrow> bool" where
  "throws (Throws e) = True"
| "throws _ = False"

text \<open>
  Successive polls of one order, each run to its end, each with its own behaviour of the
  collaborators and its own clock reading.
\<close>

definition pollRepeatedly :: "ref \<Rightarrow> (OrderMonitorDeps \<times> int) list \<Rightarrow> OrderMonitor \<Rightarrow> OrderMonitor" where
  "pollRepeatedly order runs m = fold (\<lambda>dt. pollOrder (fst dt) (snd dt) order) runs m"

definition notifications :: "OrderMonitor \<Rightarrow> effect list" where
  "notifications m = filter is_notification (effects m)"

definition writes :: "OrderMonitor \<Rightarrow> effect list" where
  "writes m = filter is_write (effects m)"

subsection \<open>Fixtures\<close>

text \<open>
  The fixtures of the monitor's test file: a status record with a given id and status, and
  collaborators with fixed outcomes (\<^verbatim>\<open>createMockDeps\<close> with overrides).
\<close>

definition mockStatus :: "string \<Rightarrow> string \<Rightarrow> SideShiftOrderStatus" where
  "mockStatus oid s =
     \<lparr>id = oid, status = s, depositCoin = ''ETH'', depositNetwork = ''ethereum'',
      settleCoin = ''BTC'', settleNetwork = ''bitcoin'',
      depositAddress = \<lparr>address = ''0xabc'', memo = None\<rparr>,
      settleAddress = \<lparr>address = ''bc1'', memo = None\<rparr>,
      depositAmount = None, settleAmount = None, depositHash = None, settleHash = None,
      createdAt = [], updatedAt = [], error = None\<rparr>"

definition createMockDeps ::
  "(string \<Rightarrow> error + SideShiftOrderStatus) \<Rightarrow> error + unit \<Rightarrow> callback_result \<Rightarrow> OrderMonitorDeps" where
  "createMockDeps fetch written cb =
     \<lparr>getOrderStatus = fetch, updateOrderStatus = (\<lambda>oid s. written),
      getPendingOrders = Inr [], onStatusChange = (\<lambda>tid oid old new st. cb)\<rparr>"

definition resolves :: "string \<Rightarrow> string \<Rightarrow> error + SideShiftOrderStatus" where
  "resolves s oid = Inr (mockStatus oid s)"

definition rejects :: "string \<Rightarrow> error + SideShiftOrderStatus" where
  "rejects oid = Inl (Error ''Network error'')"

text \<open>One order, tracked since time 0 and never polled.\<close>

definition oneOrder :: OrderMonitor where
  "oneOrder = trackOrder ''order-1'' 100 (Some 0) 0 newOrderMonitor"

text \<open>A provider that fails for one order id and resolves with status \<open>s\<close> for the others.\<close>

definition rejectsFor :: "string \<Rightarrow> string \<Rightarrow> string \<Rightarrow> error + SideShiftOrderStatus" where
  "rejectsFor k s oid = (if oid = k then rejects oid else resolves s oid)"

text \<open>A second order beside the first.\<close>

definition twoOrders :: OrderMonitor where
  "twoOrders = trackOrder ''order-2'' 200 (Some 0) 0 oneOrder"

text \<open>A persisted order (\<^verbatim>\<open>createMockOrder\<close> with overrides) and a storage that returns rows.\<close>

definition createMockOrder :: "string \<Rightarrow> string \<Rightarrow> Order" where
  "createMockOrder oid s =
     \<lparr>sideshiftOrderId = oid, telegramId = 12345, createdAt = Some 1000, status = s\<rparr>"

definition storageWith :: "error + Order list \<Rightarrow> OrderMonitorDeps" where
  "storageWith rows = (createMockDeps (resolves ''pending'') (Inr ()) Returns)\<lparr>getPendingOrders := rows\<rparr>"

text \<open>A running monitor with six orders, all tracked since time 0 and never polled.\<close>

definition sixOrders :: OrderMonitor where
  "sixOrders =
     fold (\<lambda>k. trackOrder k 100 (Some 0) 0) [''o1'', ''o2'', ''o3'', ''o4'', ''o5'', ''o6'']
       (start newOrderMonitor)"

section \<open>Properties\<close>

subsection \<open>Backoff tiers\<close>

text \<open>
  C3. For every non-negative age in milliseconds, \<open>getBackoffInterval\<close> returns 15000 below
  300000, 60000 from 300000 up to but not including 1800000, 300000 from 1800000 up to but
  not including 7200000, and 900000 from 7200000 on.
\<close>

theorem getBackoffInterval_tiers:
  "0 \<le> a \<Longrightarrow>
     (a < 300000 \<longrightarrow> getBackoffInterval a = 15000) \<and>
     (300000 \<le> a \<and> a < 1800000 \<longrightarrow> getBackoffInterval a = 60000) \<and>
     (1800000 \<le> a \<and> a < 7200000 \<longrightarrow> getBackoffInterval a = 300000) \<and>
     (7200000 \<le> a \<longrightarrow> getBackoffInterval a = 900000)"
  by (simp add: getBackoffInterval_def)

theorem getBackoffInterval_tiers_witness:
  "getBackoffInterval 0 = 15000 \<and> getBackoffInterval 299999 = 15000 \<and>
   getBackoffInterval 300000 = 60000 \<and> getBackoffInterval 1799999 = 60000 \<and>
   getBackoffInterval 1800000 = 300000 \<and> getBackoffInterval 7199999 = 300000 \<and>
   getBackoffInterval 7200000 = 900000"
  using getBackoffInterval_tiers [of 0] getBackoffInterval_tiers [of 299999]
    getBackoffInterval_tiers [of 300000] getBackoffInterval_tiers [of 1799999]
    getBackoffInterval_tiers [of 1800000] getBackoffInterval_tiers [of 7199999]
    getBackoffInterval_tiers [of 7200000]
  by simp

subsection \<open>One poll, case by case\<close>

lemma pollOrder_phases:
  "pollOrder deps t r m = pollOrder_settle deps t r (pollOrder_enter r m)"
  by (simp add: pollOrder_def pollOrder_settle_def pollOrder_enter_def pollOrder_fetched_def
      pollOrder_written_def pollOrder_finally_def call_def untrackOrder_def Let_def
      split: sum.splits callback_result.splits)

lemma pollOrder_fetch_fails:
  assumes "getOrderStatus deps (orderId (objects m r)) = Inl e"
  shows "pollOrder deps t r m =
     m\<lparr>effects := effects m @ [GetOrderStatus (orderId (objects m r)), ConsoleError (orderId (objects m r))]\<rparr>"
  using assms by (simp add: pollOrder_def call_def Let_def)

lemma pollOrder_unchanged:
  assumes "getOrderStatus deps (orderId (objects m r)) = Inr st"
    and "SideShiftOrderStatus.status st = lastStatus (objects m r)"
  shows "pollOrder deps t r m =
     m\<lparr>objects := (objects m)(r := (objects m r)\<lparr>lastChecked := t\<rparr>),
       effects := effects m @ [GetOrderStatus (orderId (objects m r))]\<rparr>"
  using assms by (simp add: pollOrder_def call_def Let_def)

lemma pollOrder_write_fails:
  assumes "getOrderStatus deps (orderId (objects m r)) = Inr st"
    and "SideShiftOrderStatus.status st \<noteq> lastStatus (objects m r)"
    and "updateOrderStatus deps (orderId (objects m r)) (SideShiftOrderStatus.status st) = Inl e"
  shows "pollOrder deps t r m =
     m\<lparr>objects := (objects m)(r := (objects m r)\<lparr>lastChecked := t, lastStatus := SideShiftOrderStatus.status st\<rparr>),
       effects := effects m @ [GetOrderStatus (orderId (objects m r)),
          UpdateOrderStatus (orderId (objects m r)) (SideShiftOrderStatus.status st),
          ConsoleError (orderId (objects m r))]\<rparr>"
  using assms by (simp add: pollOrder_def call_def Let_def)

lemma pollOrder_callback_throws:
  assumes "getOrderStatus deps (orderId (objects m r)) = Inr st"
    and "SideShiftOrderStatus.status st \<noteq> lastStatus (objects m r)"
    and "updateOrderStatus deps (orderId (objects m r)) (SideShiftOrderStatus.status st) = Inr u"
    and "throws (onStatusChange deps (telegramId (objects m r)) (orderId (objects m r))
           (lastStatus (objects m r)) (SideShiftOrderStatus.status st) st)"
  shows "pollOrder deps t r m =
     m\<lparr>objects := (objects m)(r := (objects m r)\<lparr>lastChecked := t, lastStatus := SideShiftOrderStatus.status st\<rparr>),
       effects := effects m @ [GetOrderStatus (orderId (objects m r)),
          UpdateOrderStatus (orderId (objects m r)) (SideShiftOrderStatus.status st),
          OnStatusChange (telegramId (objects m r)) (orderId (objects m r))
           (lastStatus (objects m r)) (SideShiftOrderStatus.status st) st,
          ConsoleError (orderId (objects m r))]\<rparr>"
  using assms
  by (cases "onStatusChange deps (telegramId (objects m r)) (orderId (objects m r))
           (lastStatus (objects m r)) (SideShiftOrderStatus.status st) st")
     (simp_all add: pollOrder_def call_def Let_def)

lemma pollOrder_notified:
  assumes "getOrderStatus deps (orderId (objects m r)) = Inr st"
    and "SideShiftOrderStatus.status st \<noteq> lastStatus (objects m r)"
    and "updateOrderStatus deps (orderId (objects m r)) (SideShiftOrderStatus.status st) = Inr u"
    and "\<not> throws (onStatusChange deps (telegramId (objects m r)) (orderId (objects m r))
           (lastStatus (objects m r)) (SideShiftOrderStatus.status st) st)"
  shows "pollOrder deps t r m =
     m\<lparr>objects := (objects m)(r := (objects m r)\<lparr>lastChecked := t, lastStatus := SideShiftOrderStatus.status st\<rparr>),
       tracked := (if SideShiftOrderStatus.status st \<in> TERMINAL_STATUSES
                   then filter (\<lambda>kr. fst kr \<noteq> orderId (objects m r)) (tracked m) else tracked m),
       effects := effects m @ [GetOrderStatus (orderId (objects m r)),
          UpdateOrderStatus (orderId (objects m r)) (SideShiftOrderStatus.status st),
          OnStatusChange (telegramId (objects m r)) (orderId (objects m r))
           (lastStatus (objects m r)) (SideShiftOrderStatus.status st) st]\<rparr>"
  using assms
  by (cases "onStatusChange deps (telegramId (objects m r)) (orderId (objects m r))
           (lastStatus (objects m r)) (SideShiftOrderStatus.status st) st")
     (simp_all add: pollOrder_def call_def untrackOrder_def Let_def)

subsection \<open>Notification on change\<close>

lemma throws_iff: "throws c \<longleftrightarrow> (\<exists>e. c = Throws e)"
  by (cases c) simp_all

lemma wf_tracked_get:
  assumes "wf m" and "tracked_get m k = Some r"
  shows "orderId (objects m r) = k" and "r < nextRef m" and "(k, r) \<in> set (tracked m)"
proof -
  from assms(2) show in_set: "(k, r) \<in> set (tracked m)"
    by (simp add: tracked_get_def map_of_SomeD)
  with assms(1) show "orderId (objects m r) = k" and "r < nextRef m"
    by (auto simp: wf_def)
qed

lemma length_filter_key:
  "distinct (map fst xs) \<Longrightarrow> map_of xs k = Some r \<Longrightarrow>
     Suc (length (filter (\<lambda>kr. fst kr \<noteq> k) xs)) = length xs"
proof (induction xs)
  case Nil
  then show ?case by simp
next
  case (Cons x xs)
  show ?case
  proof (cases "fst x = k")
    case True
    with Cons.prems have "k \<notin> fst ` set xs" by auto
    then have "filter (\<lambda>kr. fst kr \<noteq> k) xs = xs"
      by (auto simp: filter_id_conv)
    with True show ?thesis by simp
  next
    case False
    with Cons show ?thesis by (cases x) auto
  qed
qed

lemma map_of_filter_key: "map_of (filter (\<lambda>kr. fst kr \<noteq> k) xs) k = None"
  by (induction xs) auto

lemma oneOrder_facts:
  "wf oneOrder" "tracked_get oneOrder ''order-1'' = Some 0"
  "objects oneOrder 0 = \<lparr>orderId = ''order-1'', telegramId = 100, createdAt = 0, lastChecked = 0, lastStatus = ''pending''\<rparr>"
  "tracked oneOrder = [(''order-1'', 0)]" "effects oneOrder = []" "activePollCount oneOrder = 0"
  by (simp_all add: oneOrder_def trackOrder_def newOrderMonitor_def tracked_has_def tracked_get_def wf_def)

text \<open>
  C1, as the code has it. For a tracked order whose status fetch succeeds, the notification
  callback is invoked, once and with the owner, the order id, the old status, the new status
  and the fetched record, exactly when the fetched status differs from \<open>lastStatus\<close> and the
  persistence write resolves. The write is attempted exactly when the status differs; when
  the status is the same there is neither a write nor a notification.
\<close>

theorem pollOrder_notifies_iff_changed_and_written:
  assumes "wf m" and "tracked_get m k = Some r" and "getOrderStatus deps k = Inr st"
  shows "notifications (pollOrder deps t r m) =
           notifications m @
           (if SideShiftOrderStatus.status st \<noteq> lastStatus (objects m r) \<and>
               updateOrderStatus deps k (SideShiftOrderStatus.status st) = Inr ()
            then [OnStatusChange (telegramId (objects m r)) k (lastStatus (objects m r))
                    (SideShiftOrderStatus.status st) st]
            else []) \<and>
         writes (pollOrder deps t r m) =
           writes m @
           (if SideShiftOrderStatus.status st \<noteq> lastStatus (objects m r)
            then [UpdateOrderStatus k (SideShiftOrderStatus.status st)] else [])"
proof -
  have k: "orderId (objects m r) = k"
    using assms(1,2) by (rule wf_tracked_get)
  let ?new = "SideShiftOrderStatus.status st"
  let ?cb = "onStatusChange deps (telegramId (objects m r)) k (lastStatus (objects m r)) ?new st"
  show ?thesis
  proof (cases "?new = lastStatus (objects m r)")
    case True
    with assms(3) k show ?thesis
      by (simp add: pollOrder_unchanged notifications_def writes_def)
  next
    case changed: False
    show ?thesis
    proof (cases "updateOrderStatus deps k ?new")
      case (Inl e)
      with assms(3) k changed show ?thesis
        by (simp add: pollOrder_write_fails notifications_def writes_def)
    next
      case (Inr u)
      show ?thesis
      proof (cases "throws ?cb")
        case True
        with assms(3) k changed Inr show ?thesis
          by (simp add: pollOrder_callback_throws notifications_def writes_def)
      next
        case False
        with assms(3) k changed Inr show ?thesis
          by (simp add: pollOrder_notified notifications_def writes_def)
      qed
    qed
  qed
qed

theorem pollOrder_notifies_iff_changed_and_written_witness:
  "notifications (pollOrder (createMockDeps (resolves ''settled'') (Inr ()) Returns) 11000 0 oneOrder) =
     [OnStatusChange 100 ''order-1'' ''pending'' ''settled'' (mockStatus ''order-1'' ''settled'')] \<and>
   writes (pollOrder (createMockDeps (resolves ''settled'') (Inr ()) Returns) 11000 0 oneOrder) =
     [UpdateOrderStatus ''order-1'' ''settled'']"
  using pollOrder_notifies_iff_changed_and_written
    [of oneOrder "''order-1''" 0 "createMockDeps (resolves ''settled'') (Inr ()) Returns"
        "mockStatus ''order-1'' ''settled''" 11000]
  by (simp add: oneOrder_facts createMockDeps_def resolves_def mockStatus_def notifications_def writes_def)

text \<open>
  C1 as stated fails: the fetch succeeds and the status differs, but the write is rejected
  and no notification is made.
\<close>

theorem changed_status_without_notification:
  "tracked_get oneOrder ''order-1'' = Some 0 \<and>
   getOrderStatus (createMockDeps (resolves ''settled'') (Inl (Error ''DB down'')) Returns) ''order-1''
     = Inr (mockStatus ''order-1'' ''settled'') \<and>
   SideShiftOrderStatus.status (mockStatus ''order-1'' ''settled'') \<noteq> lastStatus (objects oneOrder 0) \<and>
   notifications (pollOrder (createMockDeps (resolves ''settled'') (Inl (Error ''DB down'')) Returns)
      11000 0 oneOrder) = []"
  by (simp add: oneOrder_facts createMockDeps_def resolves_def mockStatus_def notifications_def
      pollOrder_def call_def Let_def)

lemma tracked_has_filter_key:
  "\<not> tracked_has (m\<lparr>tracked := filter (\<lambda>kr. fst kr \<noteq> k) (tracked m)\<rparr>) k"
  by (simp add: tracked_has_def tracked_get_def map_of_filter_key)

lemma trackedCount_filter_key:
  assumes "wf m" and "tracked_get m k = Some r"
  shows "int (length (filter (\<lambda>kr. fst kr \<noteq> k) (tracked m))) = trackedCount m - 1"
proof -
  have "Suc (length (filter (\<lambda>kr. fst kr \<noteq> k) (tracked m))) = length (tracked m)"
    using assms by (intro length_filter_key) (simp_all add: wf_def tracked_get_def)
  then show ?thesis by (simp add: trackedCount_def)
qed

subsection \<open>Removal at a terminal status\<close>

text \<open>
  C2, as the code has it. For a tracked order whose poll sees a changed status: if the new
  status is terminal, the persistence write resolves and the callback does not throw, the
  order is gone from the map at the end of the poll and the count is one less, the write and
  the notification having been made (the order is still in the map while the write is
  awaited); if the new status is not terminal the map is as it was.
\<close>

theorem pollOrder_terminal_removal:
  assumes "wf m" and "tracked_get m k = Some r" and "getOrderStatus deps k = Inr st"
    and "SideShiftOrderStatus.status st \<noteq> lastStatus (objects m r)"
  shows "(SideShiftOrderStatus.status st \<in> TERMINAL_STATUSES \<and>
          updateOrderStatus deps k (SideShiftOrderStatus.status st) = Inr () \<and>
          \<not> throws (onStatusChange deps (telegramId (objects m r)) k (lastStatus (objects m r))
                      (SideShiftOrderStatus.status st) st) \<longrightarrow>
            \<not> tracked_has (pollOrder deps t r m) k \<and>
            trackedCount (pollOrder deps t r m) = trackedCount m - 1 \<and>
            emitted m (pollOrder deps t r m) =
              [GetOrderStatus k, UpdateOrderStatus k (SideShiftOrderStatus.status st),
               OnStatusChange (telegramId (objects m r)) k (lastStatus (objects m r))
                 (SideShiftOrderStatus.status st) st] \<and>
            tracked (fst (pollOrder_fetched t r (Inr st) (pollOrder_enter r m))) = tracked m) \<and>
         (SideShiftOrderStatus.status st \<notin> TERMINAL_STATUSES \<longrightarrow>
            tracked (pollOrder deps t r m) = tracked m)"
proof -
  have k: "orderId (objects m r) = k"
    using assms(1,2) by (rule wf_tracked_get)
  let ?new = "SideShiftOrderStatus.status st"
  let ?cb = "onStatusChange deps (telegramId (objects m r)) k (lastStatus (objects m r)) ?new st"
  have removal: "\<not> tracked_has (pollOrder deps t r m) k \<and>
      trackedCount (pollOrder deps t r m) = trackedCount m - 1 \<and>
      emitted m (pollOrder deps t r m) =
        [GetOrderStatus k, UpdateOrderStatus k ?new,
         OnStatusChange (telegramId (objects m r)) k (lastStatus (objects m r)) ?new st]"
    if "?new \<in> TERMINAL_STATUSES" and "updateOrderStatus deps k ?new = Inr ()" and "\<not> throws ?cb"
  proof -
    have eq: "pollOrder deps t r m =
      m\<lparr>objects := (objects m)(r := (objects m r)\<lparr>lastChecked := t, lastStatus := ?new\<rparr>),
        tracked := filter (\<lambda>kr. fst kr \<noteq> k) (tracked m),
        effects := effects m @ [GetOrderStatus k, UpdateOrderStatus k ?new,
          OnStatusChange (telegramId (objects m r)) k (lastStatus (objects m r)) ?new st]\<rparr>"
      using pollOrder_notified [of deps m r st "()" t] assms(3,4) k that by simp
    show ?thesis
      unfolding eq
      using trackedCount_filter_key [OF assms(1,2)]
      by (simp add: tracked_has_def tracked_get_def map_of_filter_key trackedCount_def emitted_def)
  qed
  have suspended: "tracked (fst (pollOrder_fetched t r (Inr st) (pollOrder_enter r m))) = tracked m"
    by (simp add: pollOrder_fetched_def pollOrder_enter_def pollOrder_finally_def call_def Let_def)
  have kept: "tracked (pollOrder deps t r m) = tracked m" if "?new \<notin> TERMINAL_STATUSES"
  proof (cases "updateOrderStatus deps k ?new")
    case (Inl e)
    with assms(3,4) k show ?thesis by (simp add: pollOrder_write_fails)
  next
    case (Inr u)
    show ?thesis
    proof (cases "throws ?cb")
      case True
      with assms(3,4) k Inr show ?thesis by (simp add: pollOrder_callback_throws)
    next
      case False
      with assms(3,4) k Inr that show ?thesis by (simp add: pollOrder_notified)
    qed
  qed
  from removal suspended kept show ?thesis by blast
qed

theorem pollOrder_terminal_removal_witness:
  "\<not> tracked_has (pollOrder (createMockDeps (resolves ''expired'') (Inr ()) Returns) 11000 0 oneOrder) ''order-1'' \<and>
   trackedCount oneOrder = 1 \<and>
   trackedCount (pollOrder (createMockDeps (resolves ''expired'') (Inr ()) Returns) 11000 0 oneOrder) = 0 \<and>
   tracked (pollOrder (createMockDeps (resolves ''waiting'') (Inr ()) Returns) 11000 0 oneOrder)
     = tracked oneOrder"
  using pollOrder_terminal_removal
    [of oneOrder "''order-1''" 0 "createMockDeps (resolves ''expired'') (Inr ()) Returns"
        "mockStatus ''order-1'' ''expired''" 11000]
    pollOrder_terminal_removal
    [of oneOrder "''order-1''" 0 "createMockDeps (resolves ''waiting'') (Inr ()) Returns"
        "mockStatus ''order-1'' ''waiting''" 11000]
  by (simp add: oneOrder_facts createMockDeps_def resolves_def mockStatus_def TERMINAL_STATUSES_def
      trackedCount_def)

text \<open>
  C2 as stated fails: the poll sees the terminal status \<^verbatim>\<open>settled\<close>, the write is rejected,
  and the order is still tracked with the count unchanged.
\<close>

theorem terminal_status_still_tracked:
  "tracked_get oneOrder ''order-1'' = Some 0 \<and>
   getOrderStatus (createMockDeps (resolves ''settled'') (Inl (Error ''DB down'')) Returns) ''order-1''
     = Inr (mockStatus ''order-1'' ''settled'') \<and>
   SideShiftOrderStatus.status (mockStatus ''order-1'' ''settled'') \<noteq> lastStatus (objects oneOrder 0) \<and>
   SideShiftOrderStatus.status (mockStatus ''order-1'' ''settled'') \<in> TERMINAL_STATUSES \<and>
   tracked_has (pollOrder (createMockDeps (resolves ''settled'') (Inl (Error ''DB down'')) Returns)
      11000 0 oneOrder) ''order-1'' \<and>
   trackedCount (pollOrder (createMockDeps (resolves ''settled'') (Inl (Error ''DB down'')) Returns)
      11000 0 oneOrder) = trackedCount oneOrder"
  by (simp add: oneOrder_facts createMockDeps_def resolves_def mockStatus_def TERMINAL_STATUSES_def
      trackedCount_def tracked_has_def tracked_get_def pollOrder_def call_def Let_def)

subsection \<open>The time of the last check\<close>

lemma pollOrder_fetch_time:
  "getOrderStatus deps (orderId (objects m r)) = Inr st \<Longrightarrow>
     lastChecked (objects (pollOrder deps t r m) r) = t"
  by (simp add: pollOrder_def call_def untrackOrder_def Let_def split: callback_result.splits sum.splits)

text \<open>
  C4, as the code has it. A poll whose status fetch succeeds sets \<open>lastChecked\<close> to the
  current time; a poll whose fetch fails leaves \<open>lastChecked\<close> as it was.
\<close>

theorem pollOrder_lastChecked:
  "(getOrderStatus deps (orderId (objects m r)) = Inr st \<longrightarrow>
      lastChecked (objects (pollOrder deps t r m) r) = t) \<and>
   (getOrderStatus deps (orderId (objects m r)) = Inl e \<longrightarrow>
      lastChecked (objects (pollOrder deps t r m) r) = lastChecked (objects m r))"
  by (simp add: pollOrder_fetch_time pollOrder_fetch_fails)

theorem pollOrder_lastChecked_witness:
  "lastChecked (objects (pollOrder (createMockDeps (resolves ''pending'') (Inr ()) Returns) 11000 0 oneOrder) 0) = 11000 \<and>
   lastChecked (objects (pollOrder (createMockDeps rejects (Inr ()) Returns) 11000 0 oneOrder) 0) = 0"
  using pollOrder_lastChecked
    [of "createMockDeps (resolves ''pending'') (Inr ()) Returns" oneOrder 0
        "mockStatus ''order-1'' ''pending''" 11000]
    pollOrder_lastChecked
    [of "createMockDeps rejects (Inr ()) Returns" oneOrder 0 _ 11000 "Error ''Network error''"]
  by (simp add: oneOrder_facts createMockDeps_def resolves_def rejects_def)

text \<open>
  C4 as stated fails: the fetch is rejected at time 11000 and \<open>lastChecked\<close> is not 11000.
\<close>

theorem failed_fetch_keeps_lastChecked:
  "tracked_get oneOrder ''order-1'' = Some 0 \<and>
   getOrderStatus (createMockDeps rejects (Inr ()) Returns) ''order-1'' = Inl (Error ''Network error'') \<and>
   lastChecked (objects (pollOrder (createMockDeps rejects (Inr ()) Returns) 11000 0 oneOrder) 0) \<noteq> 11000"
  by (simp add: oneOrder_facts createMockDeps_def rejects_def pollOrder_def call_def Let_def)

subsection \<open>A failing notification\<close>

text \<open>
  C9, as the code has it. On a change to a terminal status whose write resolved: a callback
  that hands back a promise which rejects does not stop the removal, the order leaves the
  map; a callback that throws lands in the \<^verbatim>\<open>catch\<close> block, the removal is skipped and the
  order stays in the map with the terminal status as its \<open>lastStatus\<close>.
\<close>

theorem notification_failure_removal:
  assumes "wf m" and "tracked_get m k = Some r" and "getOrderStatus deps k = Inr st"
    and "SideShiftOrderStatus.status st \<noteq> lastStatus (objects m r)"
    and "updateOrderStatus deps k (SideShiftOrderStatus.status st) = Inr ()"
    and "SideShiftOrderStatus.status st \<in> TERMINAL_STATUSES"
  shows "(onStatusChange deps (telegramId (objects m r)) k (lastStatus (objects m r))
            (SideShiftOrderStatus.status st) st = ReturnsRejectedPromise e \<longrightarrow>
            \<not> tracked_has (pollOrder deps t r m) k \<and>
            trackedCount (pollOrder deps t r m) = trackedCount m - 1) \<and>
         (onStatusChange deps (telegramId (objects m r)) k (lastStatus (objects m r))
            (SideShiftOrderStatus.status st) st = Throws e \<longrightarrow>
            tracked (pollOrder deps t r m) = tracked m \<and>
            lastStatus (objects (pollOrder deps t r m) r) = SideShiftOrderStatus.status st)"
proof -
  have k: "orderId (objects m r) = k"
    using assms(1,2) by (rule wf_tracked_get)
  let ?new = "SideShiftOrderStatus.status st"
  let ?cb = "onStatusChange deps (telegramId (objects m r)) k (lastStatus (objects m r)) ?new st"
  have rejected: "\<not> tracked_has (pollOrder deps t r m) k \<and>
      trackedCount (pollOrder deps t r m) = trackedCount m - 1"
    if "?cb = ReturnsRejectedPromise e"
  proof -
    from that have "\<not> throws ?cb" by simp
    then have eq: "pollOrder deps t r m =
      m\<lparr>objects := (objects m)(r := (objects m r)\<lparr>lastChecked := t, lastStatus := ?new\<rparr>),
        tracked := filter (\<lambda>kr. fst kr \<noteq> k) (tracked m),
        effects := effects m @ [GetOrderStatus k, UpdateOrderStatus k ?new,
          OnStatusChange (telegramId (objects m r)) k (lastStatus (objects m r)) ?new st]\<rparr>"
      using pollOrder_notified [of deps m r st "()" t] assms(3-6) k by simp
    show ?thesis
      unfolding eq
      using trackedCount_filter_key [OF assms(1,2)]
      by (simp add: tracked_has_def tracked_get_def map_of_filter_key trackedCount_def)
  qed
  have thrown: "tracked (pollOrder deps t r m) = tracked m \<and>
      lastStatus (objects (pollOrder deps t r m) r) = ?new"
    if "?cb = Throws e"
  proof -
    from that have "throws ?cb" by simp
    then show ?thesis
      using pollOrder_callback_throws [of deps m r st "()" t] assms(3-5) k by simp
  qed
  from rejected thrown show ?thesis by blast
qed

theorem notification_failure_removal_witness:
  "\<not> tracked_has (pollOrder (createMockDeps (resolves ''settled'') (Inr ())
        (ReturnsRejectedPromise (Error ''blocked''))) 11000 0 oneOrder) ''order-1'' \<and>
   trackedCount (pollOrder (createMockDeps (resolves ''settled'') (Inr ())
        (ReturnsRejectedPromise (Error ''blocked''))) 11000 0 oneOrder) = 0 \<and>
   tracked (pollOrder (createMockDeps (resolves ''settled'') (Inr ())
        (Throws (Error ''blocked''))) 11000 0 oneOrder) = [(''order-1'', 0)]"
  using notification_failure_removal
    [of oneOrder "''order-1''" 0
        "createMockDeps (resolves ''settled'') (Inr ()) (ReturnsRejectedPromise (Error ''blocked''))"
        "mockStatus ''order-1'' ''settled''" "Error ''blocked''" 11000]
    notification_failure_removal
    [of oneOrder "''order-1''" 0
        "createMockDeps (resolves ''settled'') (Inr ()) (Throws (Error ''blocked''))"
        "mockStatus ''order-1'' ''settled''" "Error ''blocked''" 11000]
  by (simp add: oneOrder_facts createMockDeps_def resolves_def mockStatus_def TERMINAL_STATUSES_def
      trackedCount_def)

text \<open>
  C9 as stated fails: the callback is called for the change to \<^verbatim>\<open>settled\<close> and throws, and
  the order is still tracked.
\<close>

theorem throwing_callback_keeps_terminal_order:
  "tracked_get oneOrder ''order-1'' = Some 0 \<and>
   SideShiftOrderStatus.status (mockStatus ''order-1'' ''settled'') \<in> TERMINAL_STATUSES \<and>
   onStatusChange (createMockDeps (resolves ''settled'') (Inr ()) (Throws (Error ''blocked'')))
     100 ''order-1'' ''pending'' ''settled'' (mockStatus ''order-1'' ''settled'')
     = Throws (Error ''blocked'') \<and>
   OnStatusChange 100 ''order-1'' ''pending'' ''settled'' (mockStatus ''order-1'' ''settled'')
     \<in> set (effects (pollOrder (createMockDeps (resolves ''settled'') (Inr ())
          (Throws (Error ''blocked''))) 11000 0 oneOrder)) \<and>
   tracked_has (pollOrder (createMockDeps (resolves ''settled'') (Inr ())
          (Throws (Error ''blocked''))) 11000 0 oneOrder) ''order-1''"
  by (simp add: oneOrder_facts createMockDeps_def resolves_def mockStatus_def TERMINAL_STATUSES_def
      tracked_has_def tracked_get_def pollOrder_def call_def Let_def)

subsection \<open>A rejected write\<close>

text \<open>Polls that see the status the order already has.\<close>

lemma pollOrder_same_status:
  assumes "orderId (objects m r) = k"
    and "case getOrderStatus deps k of Inl e \<Rightarrow> True | Inr st \<Rightarrow> SideShiftOrderStatus.status st = lastStatus (objects m r)"
  shows "tracked (pollOrder deps t r m) = tracked m"
    and "notifications (pollOrder deps t r m) = notifications m"
    and "writes (pollOrder deps t r m) = writes m"
    and "lastStatus (objects (pollOrder deps t r m) r) = lastStatus (objects m r)"
    and "orderId (objects (pollOrder deps t r m) r) = k"
  using assms
  by (cases "getOrderStatus deps k";
      simp add: pollOrder_fetch_fails pollOrder_unchanged notifications_def writes_def)+

lemma pollRepeatedly_same_status:
  assumes "orderId (objects m r) = k" and "lastStatus (objects m r) = s"
    and "\<forall>dt \<in> set runs. case getOrderStatus (fst dt) k of Inl e \<Rightarrow> True
            | Inr st \<Rightarrow> SideShiftOrderStatus.status st = s"
  shows "tracked (pollRepeatedly r runs m) = tracked m \<and>
         notifications (pollRepeatedly r runs m) = notifications m \<and>
         writes (pollRepeatedly r runs m) = writes m \<and>
         lastStatus (objects (pollRepeatedly r runs m) r) = s"
  using assms
proof (induction runs arbitrary: m)
  case Nil
  then show ?case by (simp add: pollRepeatedly_def)
next
  case (Cons dt runs)
  let ?m1 = "pollOrder (fst dt) (snd dt) r m"
  from Cons.prems have same: "case getOrderStatus (fst dt) k of Inl e \<Rightarrow> True
      | Inr st \<Rightarrow> SideShiftOrderStatus.status st = lastStatus (objects m r)"
    by (simp split: sum.splits)
  note step = pollOrder_same_status [OF Cons.prems(1) same, of "snd dt"]
  have "tracked (pollRepeatedly r runs ?m1) = tracked ?m1 \<and>
        notifications (pollRepeatedly r runs ?m1) = notifications ?m1 \<and>
        writes (pollRepeatedly r runs ?m1) = writes ?m1 \<and>
        lastStatus (objects (pollRepeatedly r runs ?m1) r) = s"
    using Cons.prems step by (intro Cons.IH) simp_all
  with step show ?case by (simp add: pollRepeatedly_def)
qed

text \<open>
  C10. When the persistence write is rejected on a detected change, \<open>lastStatus\<close> already
  holds the new status, no notification is made and the order is not removed. Any number of
  later polls of the order that fail or see that same status make no notification and no
  further write, and leave the order tracked.
\<close>

theorem write_failure_loses_transition:
  assumes "wf m" and "tracked_get m k = Some r" and "getOrderStatus deps k = Inr st"
    and "SideShiftOrderStatus.status st \<noteq> lastStatus (objects m r)"
    and "updateOrderStatus deps k (SideShiftOrderStatus.status st) = Inl e"
    and "\<forall>dt \<in> set runs. case getOrderStatus (fst dt) k of Inl e' \<Rightarrow> True
            | Inr st' \<Rightarrow> SideShiftOrderStatus.status st' = SideShiftOrderStatus.status st"
  shows "lastStatus (objects (pollOrder deps t r m) r) = SideShiftOrderStatus.status st \<and>
         notifications (pollOrder deps t r m) = notifications m \<and>
         tracked (pollOrder deps t r m) = tracked m \<and>
         lastStatus (objects (pollRepeatedly r runs (pollOrder deps t r m)) r)
           = SideShiftOrderStatus.status st \<and>
         notifications (pollRepeatedly r runs (pollOrder deps t r m)) = notifications m \<and>
         writes (pollRepeatedly r runs (pollOrder deps t r m)) =
           writes m @ [UpdateOrderStatus k (SideShiftOrderStatus.status st)] \<and>
         tracked (pollRepeatedly r runs (pollOrder deps t r m)) = tracked m \<and>
         tracked_has (pollRepeatedly r runs (pollOrder deps t r m)) k"
proof -
  have k: "orderId (objects m r) = k"
    using assms(1,2) by (rule wf_tracked_get)
  let ?m1 = "pollOrder deps t r m"
  have eq: "?m1 =
     m\<lparr>objects := (objects m)(r := (objects m r)\<lparr>lastChecked := t, lastStatus := SideShiftOrderStatus.status st\<rparr>),
       effects := effects m @ [GetOrderStatus k, UpdateOrderStatus k (SideShiftOrderStatus.status st),
          ConsoleError k]\<rparr>"
    using pollOrder_write_fails [of deps m r st e t] assms(3-5) k by simp
  have first: "lastStatus (objects ?m1 r) = SideShiftOrderStatus.status st"
    "notifications ?m1 = notifications m" "tracked ?m1 = tracked m" "orderId (objects ?m1 r) = k"
    "writes ?m1 = writes m @ [UpdateOrderStatus k (SideShiftOrderStatus.status st)]"
    unfolding eq using k by (simp_all add: notifications_def writes_def)
  have later: "tracked (pollRepeatedly r runs ?m1) = tracked ?m1 \<and>
         notifications (pollRepeatedly r runs ?m1) = notifications ?m1 \<and>
         writes (pollRepeatedly r runs ?m1) = writes ?m1 \<and>
         lastStatus (objects (pollRepeatedly r runs ?m1) r) = SideShiftOrderStatus.status st"
    using first(4) first(1) assms(6) by (rule pollRepeatedly_same_status)
  have "tracked_has m k" using assms(2) by (simp add: tracked_has_def)
  with first later show ?thesis
    by (simp add: tracked_has_def tracked_get_def)
qed

theorem write_failure_loses_transition_witness:
  "lastStatus (objects (pollOrder (createMockDeps (resolves ''settled'') (Inl (Error ''DB down'')) Returns)
      11000 0 oneOrder) 0) = ''settled'' \<and>
   notifications (pollRepeatedly 0
      [(createMockDeps (resolves ''settled'') (Inr ()) Returns, 30000),
       (createMockDeps (resolves ''settled'') (Inr ()) Returns, 50000)]
      (pollOrder (createMockDeps (resolves ''settled'') (Inl (Error ''DB down'')) Returns)
        11000 0 oneOrder)) = [] \<and>
   tracked_has (pollRepeatedly 0
      [(createMockDeps (resolves ''settled'') (Inr ()) Returns, 30000),
       (createMockDeps (resolves ''settled'') (Inr ()) Returns, 50000)]
      (pollOrder (createMockDeps (resolves ''settled'') (Inl (Error ''DB down'')) Returns)
        11000 0 oneOrder)) ''order-1''"
  using write_failure_loses_transition
    [of oneOrder "''order-1''" 0
        "createMockDeps (resolves ''settled'') (Inl (Error ''DB down'')) Returns"
        "mockStatus ''order-1'' ''settled''" "Error ''DB down''"
        "[(createMockDeps (resolves ''settled'') (Inr ()) Returns, 30000),
          (createMockDeps (resolves ''settled'') (Inr ()) Returns, 50000)]" 11000]
  by (simp add: oneOrder_facts createMockDeps_def resolves_def mockStatus_def notifications_def)

subsection \<open>Tracking an order\<close>

lemma tracked_has_iff: "tracked_has m k \<longleftrightarrow> k \<in> fst ` set (tracked m)"
  by (simp add: tracked_has_def tracked_get_def map_of_eq_None_iff)

lemma wf_new: "wf newOrderMonitor"
  by (simp add: wf_def newOrderMonitor_def)

lemma wf_trackOrder: "wf m \<Longrightarrow> wf (trackOrder oid tid created now m)"
  by (auto simp: wf_def trackOrder_def tracked_has_iff less_Suc_eq)

lemma wf_untrackOrder: "wf m \<Longrightarrow> wf (untrackOrder oid m)"
  by (auto simp: wf_def untrackOrder_def distinct_map_filter)

lemma wf_start: "wf m \<Longrightarrow> wf (start m)"
  by (simp add: wf_def start_def)

lemma wf_stop: "wf m \<Longrightarrow> wf (stop m)"
  by (simp add: wf_def stop_def)

lemma wf_call: "wf (call e m) = wf m"
  by (simp add: wf_def call_def)

lemma wf_refs_distinct:
  assumes "wf m"
  shows "distinct (map snd (tracked m))"
proof -
  from assms have key: "\<And>kr. kr \<in> set (tracked m) \<Longrightarrow> orderId (objects m (snd kr)) = fst kr"
    unfolding wf_def by blast
  have "inj_on snd (set (tracked m))"
  proof (rule inj_onI)
    fix a b assume a: "a \<in> set (tracked m)" and b: "b \<in> set (tracked m)" and eq: "snd a = snd b"
    from key [OF a] key [OF b] eq have "fst a = fst b" by simp
    with eq show "a = b" by (simp add: prod_eq_iff)
  qed
  moreover from assms have "distinct (tracked m)"
    by (simp add: wf_def distinct_map)
  ultimately show ?thesis by (simp add: distinct_map)
qed

subsection \<open>What a poll leaves alone\<close>

lemma wf_frame:
  assumes "wf m" and "nextRef m' = nextRef m"
    and "\<And>r. orderId (objects m' r) = orderId (objects m r)"
    and "set (tracked m') \<subseteq> set (tracked m)" and "distinct (map fst (tracked m'))"
  shows "wf m'"
  using assms unfolding wf_def by auto

lemmas poll_defs = pollOrder_settle_def pollOrder_fetched_def pollOrder_written_def
  pollOrder_finally_def pollOrder_enter_def call_def untrackOrder_def Let_def

lemma pollOrder_enter_frame:
  "objects (pollOrder_enter r m) = objects m" "tracked (pollOrder_enter r m) = tracked m"
  "nextRef (pollOrder_enter r m) = nextRef m" "tickTimer (pollOrder_enter r m) = tickTimer m"
  "activePollCount (pollOrder_enter r m) = activePollCount m + 1"
  by (simp_all add: poll_defs)

lemma pollOrder_fetched_frame:
  "nextRef (fst (pollOrder_fetched t r res m)) = nextRef m"
  "tracked (fst (pollOrder_fetched t r res m)) = tracked m"
  "orderId (objects (fst (pollOrder_fetched t r res m)) r') = orderId (objects m r')"
  "r' \<noteq> r \<Longrightarrow> objects (fst (pollOrder_fetched t r res m)) r' = objects m r'"
  by (simp_all add: poll_defs split: sum.splits)

lemma pollOrder_written_frame:
  "nextRef (pollOrder_written r old new st res cb m) = nextRef m"
  "objects (pollOrder_written r old new st res cb m) = objects m"
  "set (tracked (pollOrder_written r old new st res cb m)) \<subseteq> set (tracked m)"
  "distinct (map fst (tracked m)) \<Longrightarrow> distinct (map fst (tracked (pollOrder_written r old new st res cb m)))"
  by (auto simp add: poll_defs distinct_map_filter split: sum.splits callback_result.splits)

lemma pollOrder_fetched_shape:
  "snd (pollOrder_fetched t r res m) = None \<or>
   (\<exists>old st. res = Inr st \<and> old = lastStatus (objects m r) \<and> SideShiftOrderStatus.status st \<noteq> old \<and>
      snd (pollOrder_fetched t r res m) = Some (AwaitWrite r old (SideShiftOrderStatus.status st) st))"
  by (simp add: pollOrder_fetched_def Let_def split: sum.splits)

lemma pollOrder_settle_None:
  "snd (pollOrder_fetched t r (getOrderStatus deps (orderId (objects m r))) m) = None \<Longrightarrow>
   pollOrder_settle deps t r m = fst (pollOrder_fetched t r (getOrderStatus deps (orderId (objects m r))) m)"
  by (auto simp: pollOrder_settle_def Let_def split: prod.splits)

lemma pollOrder_settle_Some:
  "snd (pollOrder_fetched t r (getOrderStatus deps (orderId (objects m r))) m)
     = Some (AwaitWrite r' old new st) \<Longrightarrow>
   pollOrder_settle deps t r m =
     pollOrder_written r' old new st (updateOrderStatus deps (orderId (objects m r)) new)
       (onStatusChange deps (telegramId (objects m r)) (orderId (objects m r)) old new st)
       (fst (pollOrder_fetched t r (getOrderStatus deps (orderId (objects m r))) m))"
  by (auto simp: pollOrder_settle_def Let_def split: prod.splits)

lemma pollOrder_settle_frame:
  shows "nextRef (pollOrder_settle deps t r m) = nextRef m"
    and "orderId (objects (pollOrder_settle deps t r m) r') = orderId (objects m r')"
    and "r' \<noteq> r \<Longrightarrow> objects (pollOrder_settle deps t r m) r' = objects m r'"
    and "set (tracked (pollOrder_settle deps t r m)) \<subseteq> set (tracked m)"
    and "distinct (map fst (tracked m)) \<Longrightarrow> distinct (map fst (tracked (pollOrder_settle deps t r m)))"
proof -
  let ?F = "pollOrder_fetched t r (getOrderStatus deps (orderId (objects m r))) m"
  have sub: "set (tracked (pollOrder_written r old new st res cb (fst ?F))) \<subseteq> set (tracked m)"
    for old new st res cb
    using pollOrder_written_frame(3) [of r old new st res cb "fst ?F"]
    by (simp add: pollOrder_fetched_frame)
  have dist: "distinct (map fst (tracked (pollOrder_written r old new st res cb (fst ?F))))"
    if "distinct (map fst (tracked m))" for old new st res cb
    using pollOrder_written_frame(4) [of "fst ?F" r old new st res cb] that
    by (simp add: pollOrder_fetched_frame)
  consider (none) "snd ?F = None" | (some) old new st where "snd ?F = Some (AwaitWrite r old new st)"
    using pollOrder_fetched_shape [of t r "getOrderStatus deps (orderId (objects m r))" m] by auto
  then have "nextRef (pollOrder_settle deps t r m) = nextRef m \<and>
     orderId (objects (pollOrder_settle deps t r m) r') = orderId (objects m r') \<and>
     (r' \<noteq> r \<longrightarrow> objects (pollOrder_settle deps t r m) r' = objects m r') \<and>
     set (tracked (pollOrder_settle deps t r m)) \<subseteq> set (tracked m) \<and>
     (distinct (map fst (tracked m)) \<longrightarrow> distinct (map fst (tracked (pollOrder_settle deps t r m))))"
  proof cases
    case none
    then show ?thesis
      by (simp add: pollOrder_settle_None pollOrder_fetched_frame)
  next
    case some
    then show ?thesis
      using sub dist
      by (simp add: pollOrder_settle_Some pollOrder_fetched_frame pollOrder_written_frame)
  qed
  then show "nextRef (pollOrder_settle deps t r m) = nextRef m"
    and "orderId (objects (pollOrder_settle deps t r m) r') = orderId (objects m r')"
    and "r' \<noteq> r \<Longrightarrow> objects (pollOrder_settle deps t r m) r' = objects m r'"
    and "set (tracked (pollOrder_settle deps t r m)) \<subseteq> set (tracked m)"
    and "distinct (map fst (tracked m)) \<Longrightarrow> distinct (map fst (tracked (pollOrder_settle deps t r m)))"
    by simp_all
qed

lemma wf_pollOrder_enter: "wf m \<Longrightarrow> wf (pollOrder_enter r m)"
  by (simp add: wf_def pollOrder_enter_frame)

lemma wf_pollOrder_fetched: "wf m \<Longrightarrow> wf (fst (pollOrder_fetched t r res m))"
  by (simp add: wf_def pollOrder_fetched_frame)

lemma wf_pollOrder_written: "wf m \<Longrightarrow> wf (pollOrder_written r old new st res cb m)"
  by (rule wf_frame [where m = m]) (simp_all add: pollOrder_written_frame wf_def)

subsection \<open>The polls of one tick\<close>

lemma pollOrder_lastStatus:
  "getOrderStatus deps (orderId (objects m r)) = Inr st \<Longrightarrow>
     lastStatus (objects (pollOrder deps t r m) r) = SideShiftOrderStatus.status st"
  by (simp add: pollOrder_def call_def untrackOrder_def Let_def split: callback_result.splits sum.splits)

lemma set_slice0: "set (slice0 n xs) \<subseteq> set xs"
  by (auto simp: slice0_def dest: in_set_takeD)

lemma distinct_slice0: "distinct xs \<Longrightarrow> distinct (slice0 n xs)"
  by (simp add: slice0_def)

lemma length_slice0: "0 \<le> n \<Longrightarrow> int (length (slice0 n xs)) \<le> n"
  by (simp add: slice0_def)

lemma set_batch: "set (batch now m) \<subseteq> set (toPoll now m)"
  using set_slice0 [of _ "toPoll now m"] by (simp add: batch_def)

lemma set_toPoll: "set (toPoll now m) \<subseteq> snd ` set (tracked m)"
  by (auto simp: toPoll_def)

lemma distinct_batch: "wf m \<Longrightarrow> distinct (batch now m)"
  by (simp add: batch_def toPoll_def distinct_slice0 wf_refs_distinct)

lemma enter_all:
  "objects (fold pollOrder_enter rs m) = objects m"
  "tracked (fold pollOrder_enter rs m) = tracked m"
  "nextRef (fold pollOrder_enter rs m) = nextRef m"
  "tickTimer (fold pollOrder_enter rs m) = tickTimer m"
  "activePollCount (fold pollOrder_enter rs m) = activePollCount m + int (length rs)"
  by (induction rs arbitrary: m) (simp_all add: pollOrder_enter_frame)

lemma tick_dispatch_frame:
  "objects (tick_dispatch now m) = objects m"
  "tracked (tick_dispatch now m) = tracked m"
  "nextRef (tick_dispatch now m) = nextRef m"
  "tickTimer (tick_dispatch now m) = tickTimer m"
  "activePollCount (tick_dispatch now m) = activePollCount m + int (length (batch now m))"
  by (simp_all add: tick_dispatch_def enter_all)

lemma wf_tick_dispatch: "wf m \<Longrightarrow> wf (tick_dispatch now m)"
  by (simp add: wf_def tick_dispatch_frame)

subsection \<open>Resuming suspended polls\<close>

lemma pollOrder_fetched_activePollCount:
  "activePollCount (fst (pollOrder_fetched t r res m)) =
     (if snd (pollOrder_fetched t r res m) = None then activePollCount m - 1 else activePollCount m)"
  by (simp add: pollOrder_fetched_def pollOrder_finally_def call_def Let_def split: sum.splits)

lemma pollOrder_written_activePollCount:
  "activePollCount (pollOrder_written r old new st res cb m) = activePollCount m - 1"
  by (simp add: pollOrder_written_def pollOrder_finally_def call_def untrackOrder_def Let_def
      split: sum.splits callback_result.splits)

lemma pollOrder_fetched_telegramId:
  "telegramId (objects (fst (pollOrder_fetched t r res m)) r') = telegramId (objects m r')"
  by (simp add: poll_defs split: sum.splits)

lemma pollOrder_fetched_effects:
  "\<exists>es. effects (fst (pollOrder_fetched t r res m)) = effects m @ es \<and>
        (\<forall>e \<in> set es. about (orderId (objects m r)) e)"
  by (simp add: poll_defs split: sum.splits)

lemma pollOrder_written_effects:
  "\<exists>es. effects (pollOrder_written r old new st res cb m) = effects m @ es \<and>
        (\<forall>e \<in> set es. about (orderId (objects m r)) e)"
  by (simp add: poll_defs split: sum.splits callback_result.splits)

lemma pollOrder_written_tracked:
  "tracked (pollOrder_written r old new st res cb m) = tracked m \<or>
   tracked (pollOrder_written r old new st res cb m)
     = filter (\<lambda>kr. fst kr \<noteq> orderId (objects m r)) (tracked m)"
  by (simp add: poll_defs split: sum.splits callback_result.splits)

lemma resume_key:
  "orderId (objects (fst (resume deps clock p m)) x) = orderId (objects m x)"
  by (cases p) (simp_all add: pollOrder_fetched_frame pollOrder_written_frame)

lemma resume_objects_other:
  "x \<noteq> ref_of p \<Longrightarrow> objects (fst (resume deps clock p m)) x = objects m x"
  by (cases p) (simp_all add: pollOrder_fetched_frame pollOrder_written_frame)

lemma resume_tracked_subset:
  "set (tracked (fst (resume deps clock p m))) \<subseteq> set (tracked m)"
  by (cases p) (simp_all add: pollOrder_fetched_frame pollOrder_written_frame)

lemma resume_effects:
  "\<exists>es. effects (fst (resume deps clock p m)) = effects m @ es \<and>
        (\<forall>e \<in> set es. about (orderId (objects m (ref_of p))) e)"
  by (cases p) (simp_all add: pollOrder_fetched_effects pollOrder_written_effects)

lemma resume_next_shape:
  assumes "snd (resume deps clock p m) = Some q"
  shows "\<exists>old new st. q = AwaitWrite (ref_of p) old new st"
proof (cases p)
  case (AwaitFetch r)
  with assms pollOrder_fetched_shape [of "clock r" r "getOrderStatus deps (orderId (objects m r))" m]
  show ?thesis by auto
next
  case (AwaitWrite r old new st)
  with assms show ?thesis by simp
qed

lemma resume_next_local:
  "objects m (ref_of p) = objects m2 (ref_of p) \<Longrightarrow>
     snd (resume deps clock p m) = snd (resume deps clock p m2)"
  by (cases p) (simp_all add: pollOrder_fetched_def Let_def split: sum.splits)

lemma resume_activePollCount:
  "activePollCount (fst (resume deps clock p m)) =
     (if snd (resume deps clock p m) = None then activePollCount m - 1 else activePollCount m)"
  by (cases p) (simp_all add: pollOrder_fetched_activePollCount pollOrder_written_activePollCount)

lemma resume_view_other:
  assumes "ref_of p \<noteq> r'" and "orderId (objects m (ref_of p)) \<noteq> k"
  shows "view k r' (fst (resume deps clock p m)) = view k r' m"
proof -
  from resume_effects [of deps clock p m] obtain es
    where es: "effects (fst (resume deps clock p m)) = effects m @ es"
      "\<forall>e \<in> set es. about (orderId (objects m (ref_of p))) e" by blast
  have "\<not> about k e" if "e \<in> set es" for e
    using es(2) that assms(2) by (cases e) auto
  then have calls: "filter (about k) (effects (fst (resume deps clock p m))) = filter (about k) (effects m)"
    by (simp add: es(1))
  have entry: "((k, r') \<in> set (tracked (fst (resume deps clock p m)))) = ((k, r') \<in> set (tracked m))"
  proof (cases p)
    case (AwaitFetch r)
    then show ?thesis by (simp add: pollOrder_fetched_frame)
  next
    case (AwaitWrite r old new st)
    with assms(2) pollOrder_written_tracked [of r old new st
        "updateOrderStatus deps (orderId (objects m r)) new"
        "onStatusChange deps (telegramId (objects m r)) (orderId (objects m r)) old new st" m]
    show ?thesis by auto
  qed
  from calls entry assms(1) show ?thesis
    by (simp add: view_def resume_objects_other)
qed

lemma notin_image_neq: "f x \<notin> f ` A \<Longrightarrow> y \<in> A \<Longrightarrow> f y \<noteq> f x"
  by (metis image_eqI)

lemma resume_view_local:
  assumes "view k r m = view k r m2" and "ref_of p = r"
  shows "view k r (fst (resume deps clock p m)) = view k r (fst (resume deps clock p m2))"
proof (cases p)
  case (AwaitFetch r0)
  with assms show ?thesis
    by (auto simp: view_def poll_defs split: sum.splits)
next
  case (AwaitWrite r0 old new st)
  with assms show ?thesis
    by (auto simp: view_def poll_defs split: sum.splits callback_result.splits)
qed

lemma resume_all_Nil: "fst (resume_all deps clock [] m) = m" "snd (resume_all deps clock [] m) = []"
  by simp_all

lemma resume_all_Cons:
  "fst (resume_all deps clock (p # ps) m) = fst (resume_all deps clock ps (fst (resume deps clock p m)))"
  "snd (resume_all deps clock (p # ps) m) =
     (case snd (resume deps clock p m) of None \<Rightarrow> [] | Some q \<Rightarrow> [q])
       @ snd (resume_all deps clock ps (fst (resume deps clock p m)))"
  by (simp_all split: prod.splits)

lemma resume_all_key:
  "orderId (objects (fst (resume_all deps clock ps m)) x) = orderId (objects m x)"
  by (induction ps arbitrary: m) (simp_all add: resume_all_Cons resume_key del: resume_all.simps(2))

lemma resume_all_objects_other:
  "x \<notin> ref_of ` set ps \<Longrightarrow> objects (fst (resume_all deps clock ps m)) x = objects m x"
  by (induction ps arbitrary: m) (simp_all add: resume_all_Cons resume_objects_other del: resume_all.simps(2))

lemma resume_all_tracked_subset:
  "set (tracked (fst (resume_all deps clock ps m))) \<subseteq> set (tracked m)"
proof (induction ps arbitrary: m)
  case Nil
  show ?case by simp
next
  case (Cons p ps)
  from Cons [of "fst (resume deps clock p m)"] resume_tracked_subset [of deps clock p m]
  show ?case by (auto simp add: resume_all_Cons simp del: resume_all.simps(2))
qed

lemma resume_all_effects:
  "\<exists>es. effects (fst (resume_all deps clock ps m)) = effects m @ es"
proof (induction ps arbitrary: m)
  case Nil
  show ?case by simp
next
  case (Cons p ps)
  from Cons [of "fst (resume deps clock p m)"] resume_effects [of deps clock p m]
  show ?case by (auto simp add: resume_all_Cons simp del: resume_all.simps(2))
qed

lemma resume_all_count:
  "activePollCount (fst (resume_all deps clock ps m)) + int (length ps) =
     activePollCount m + int (length (snd (resume_all deps clock ps m)))"
proof (induction ps arbitrary: m)
  case Nil
  show ?case by simp
next
  case (Cons p ps)
  from Cons [of "fst (resume deps clock p m)"] show ?case
    by (auto simp add: resume_all_Cons resume_activePollCount simp del: resume_all.simps(2)
        split: option.splits if_splits)
qed

lemma resume_all_next:
  "distinct (map ref_of ps) \<Longrightarrow>
     snd (resume_all deps clock ps m) =
       concat (map (\<lambda>p. case snd (resume deps clock p m) of None \<Rightarrow> [] | Some q \<Rightarrow> [q]) ps)"
proof (induction ps arbitrary: m)
  case Nil
  show ?case by simp
next
  case (Cons p ps)
  let ?m1 = "fst (resume deps clock p m)"
  have "snd (resume deps clock q ?m1) = snd (resume deps clock q m)" if "q \<in> set ps" for q
  proof (rule resume_next_local)
    from Cons.prems have "ref_of p \<notin> ref_of ` set ps" by simp
    then have "ref_of q \<noteq> ref_of p" using that by (rule notin_image_neq)
    then show "objects ?m1 (ref_of q) = objects m (ref_of q)"
      by (rule resume_objects_other)
  qed
  then have "map (\<lambda>q. case snd (resume deps clock q ?m1) of None \<Rightarrow> [] | Some q \<Rightarrow> [q]) ps
      = map (\<lambda>q. case snd (resume deps clock q m) of None \<Rightarrow> [] | Some q \<Rightarrow> [q]) ps"
    by simp
  with Cons.IH [of ?m1] Cons.prems show ?case
    by (simp add: resume_all_Cons del: resume_all.simps(2))
qed

lemma resume_all_view_other:
  "\<forall>p \<in> set ps. ref_of p \<noteq> r' \<and> orderId (objects m (ref_of p)) \<noteq> k \<Longrightarrow>
     view k r' (fst (resume_all deps clock ps m)) = view k r' m"
proof (induction ps arbitrary: m)
  case Nil
  show ?case by simp
next
  case (Cons p ps)
  let ?m1 = "fst (resume deps clock p m)"
  from Cons.prems have "view k r' ?m1 = view k r' m"
    by (intro resume_view_other) simp_all
  moreover from Cons.prems have "view k r' (fst (resume_all deps clock ps ?m1)) = view k r' ?m1"
    by (intro Cons.IH) (simp add: resume_key)
  ultimately show ?case by (simp add: resume_all_Cons del: resume_all.simps(2))
qed

lemma resume_all_view_own:
  assumes "distinct (map ref_of ps)" and "p' \<in> set ps"
    and "\<forall>p \<in> set ps. ref_of p \<noteq> ref_of p' \<longrightarrow> orderId (objects m (ref_of p)) \<noteq> k"
  shows "view k (ref_of p') (fst (resume_all deps clock ps m)) = view k (ref_of p') (fst (resume deps clock p' m))"
  using assms
proof (induction ps arbitrary: m)
  case Nil
  then show ?case by simp
next
  case (Cons p ps)
  let ?m1 = "fst (resume deps clock p m)"
  show ?case
  proof (cases "p = p'")
    case True
    from True Cons.prems have "ref_of p' \<notin> ref_of ` set ps" by simp
    then have "\<forall>q \<in> set ps. ref_of q \<noteq> ref_of p'"
      using notin_image_neq [of ref_of p' "set ps"] by blast
    with Cons.prems have "\<forall>q \<in> set ps. ref_of q \<noteq> ref_of p' \<and> orderId (objects ?m1 (ref_of q)) \<noteq> k"
      by (simp add: resume_key)
    then have "view k (ref_of p') (fst (resume_all deps clock ps ?m1)) = view k (ref_of p') ?m1"
      by (rule resume_all_view_other)
    with True show ?thesis by (simp add: resume_all_Cons del: resume_all.simps(2))
  next
    case False
    with Cons.prems have p': "p' \<in> set ps" by simp
    with Cons.prems have other: "ref_of p \<noteq> ref_of p'"
      using notin_image_neq [of ref_of p "set ps" p'] by auto
    with Cons.prems have key: "orderId (objects m (ref_of p)) \<noteq> k" by simp
    have "view k (ref_of p') (fst (resume_all deps clock ps ?m1)) = view k (ref_of p') (fst (resume deps clock p' ?m1))"
      using Cons.prems p' by (intro Cons.IH) (simp_all add: resume_key)
    also have "\<dots> = view k (ref_of p') (fst (resume deps clock p' m))"
      using other key by (intro resume_view_local resume_view_other) simp_all
    finally show ?thesis by (simp add: resume_all_Cons del: resume_all.simps(2))
  qed
qed

lemma resume_all_member:
  assumes "q \<in> set (snd (resume_all deps clock (p # ps) m))"
  shows "snd (resume deps clock p m) = Some q \<or>
         q \<in> set (snd (resume_all deps clock ps (fst (resume deps clock p m))))"
proof (cases "snd (resume deps clock p m)")
  case None
  with assms show ?thesis by (simp add: resume_all_Cons del: resume_all.simps(2))
next
  case (Some q')
  with assms show ?thesis by (auto simp add: resume_all_Cons simp del: resume_all.simps(2))
qed

lemma resume_next_ref: "snd (resume deps clock p m) = Some q \<Longrightarrow> ref_of q = ref_of p"
  using resume_next_shape [of deps clock p m q] by auto

lemma resume_all_refs:
  "q \<in> set (snd (resume_all deps clock ps m)) \<Longrightarrow> ref_of q \<in> ref_of ` set ps"
proof (induction ps arbitrary: m)
  case Nil
  then show ?case by simp
next
  case (Cons p ps)
  from resume_all_member [OF Cons.prems] show ?case
  proof
    assume "snd (resume deps clock p m) = Some q"
    then have "ref_of q = ref_of p" by (rule resume_next_ref)
    then show ?thesis by simp
  next
    assume "q \<in> set (snd (resume_all deps clock ps (fst (resume deps clock p m))))"
    then have "ref_of q \<in> ref_of ` set ps" by (rule Cons.IH)
    then show ?thesis by simp
  qed
qed

lemma resume_all_writing:
  "q \<in> set (snd (resume_all deps clock ps m)) \<Longrightarrow> \<exists>r old new st. q = AwaitWrite r old new st"
proof (induction ps arbitrary: m)
  case Nil
  then show ?case by simp
next
  case (Cons p ps)
  from resume_all_member [OF Cons.prems] show ?case
  proof
    assume "snd (resume deps clock p m) = Some q"
    from resume_next_shape [OF this] show ?thesis by auto
  next
    assume "q \<in> set (snd (resume_all deps clock ps (fst (resume deps clock p m))))"
    then show ?thesis by (rule Cons.IH)
  qed
qed

lemma resume_all_distinct:
  "distinct (map ref_of ps) \<Longrightarrow> distinct (map ref_of (snd (resume_all deps clock ps m)))"
proof (induction ps arbitrary: m)
  case Nil
  show ?case by simp
next
  case (Cons p ps)
  let ?m1 = "fst (resume deps clock p m)"
  let ?rest = "snd (resume_all deps clock ps ?m1)"
  from Cons.prems have tail: "distinct (map ref_of ?rest)" by (intro Cons.IH) simp
  show ?case
  proof (cases "snd (resume deps clock p m)")
    case None
    with tail show ?thesis by (simp add: resume_all_Cons del: resume_all.simps(2))
  next
    case (Some q)
    then have ref: "ref_of q = ref_of p" by (rule resume_next_ref)
    from Cons.prems have "ref_of p \<notin> ref_of ` set ps" by simp
    have "ref_of p \<notin> ref_of ` set ?rest"
    proof
      assume "ref_of p \<in> ref_of ` set ?rest"
      then obtain q' where q': "q' \<in> set ?rest" "ref_of p = ref_of q'" by (rule imageE)
      from q'(1) have "ref_of q' \<in> ref_of ` set ps" by (rule resume_all_refs)
      with q'(2) \<open>ref_of p \<notin> ref_of ` set ps\<close> show False by simp
    qed
    with tail Some ref show ?thesis by (simp add: resume_all_Cons del: resume_all.simps(2))
  qed
qed

lemma resume_all_ends:
  "\<forall>q \<in> set ws. \<exists>r old new st. q = AwaitWrite r old new st \<Longrightarrow> snd (resume_all deps clock ws m) = []"
proof (induction ws arbitrary: m)
  case Nil
  show ?case by simp
next
  case (Cons w ws)
  from Cons.prems have "\<exists>r old new st. w = AwaitWrite r old new st" by simp
  then obtain r old new st where "w = AwaitWrite r old new st" by (elim exE)
  then have "snd (resume deps clock w m) = None" by simp
  moreover from Cons.prems have "snd (resume_all deps clock ws (fst (resume deps clock w m))) = []"
    by (intro Cons.IH) simp
  ultimately show ?case by (simp add: resume_all_Cons del: resume_all.simps(2))
qed

subsection \<open>The polls of one tick, settled\<close>

lemma filter_map_single:
  "distinct rs \<Longrightarrow> r' \<in> set rs \<Longrightarrow> \<forall>r \<in> set rs. r \<noteq> r' \<longrightarrow> \<not> P (g r) \<Longrightarrow>
     filter P (map g rs) = filter P [g r']"
proof (induction rs)
  case Nil
  then show ?case by simp
next
  case (Cons a rs)
  show ?case
  proof (cases "a = r'")
    case True
    with Cons.prems have "\<forall>r \<in> set rs. \<not> P (g r)" by auto
    then have "filter P (map g rs) = []" by (simp add: filter_empty_conv)
    with True show ?thesis by simp
  next
    case False
    with Cons show ?thesis by simp
  qed
qed

lemma enter_all_effects:
  "effects (fold pollOrder_enter rs m) = effects m @ map (\<lambda>r. GetOrderStatus (orderId (objects m r))) rs"
  by (induction rs arbitrary: m) (simp_all add: pollOrder_enter_frame, simp add: pollOrder_enter_def call_def)

lemma enter_all_view_other:
  "\<forall>r \<in> set rs. orderId (objects m r) \<noteq> k \<Longrightarrow> view k r' (fold pollOrder_enter rs m) = view k r' m"
  by (simp add: view_def enter_all enter_all_effects filter_empty_conv)

lemma enter_all_view_own:
  assumes "distinct rs" and "r' \<in> set rs" and "\<forall>r \<in> set rs. r \<noteq> r' \<longrightarrow> orderId (objects m r) \<noteq> k"
  shows "view k r' (fold pollOrder_enter rs m) = view k r' (pollOrder_enter r' m)"
proof -
  have "filter (about k) (map (\<lambda>r. GetOrderStatus (orderId (objects m r))) rs)
      = filter (about k) [GetOrderStatus (orderId (objects m r'))]"
    using assms by (intro filter_map_single) simp_all
  then show ?thesis
    by (simp add: view_def enter_all enter_all_effects pollOrder_enter_frame)
       (simp add: pollOrder_enter_def call_def)
qed

lemma pollOrder_rounds:
  shows "snd (resume deps clock (AwaitFetch r) (pollOrder_enter r m)) = None \<Longrightarrow>
     pollOrder deps (clock r) r m = fst (resume deps clock (AwaitFetch r) (pollOrder_enter r m))"
    and "snd (resume deps clock (AwaitFetch r) (pollOrder_enter r m)) = Some q \<Longrightarrow>
     pollOrder deps (clock r) r m =
       fst (resume deps clock q (fst (resume deps clock (AwaitFetch r) (pollOrder_enter r m))))"
proof -
  let ?m1 = "pollOrder_enter r m"
  let ?F = "pollOrder_fetched (clock r) r (getOrderStatus deps (orderId (objects ?m1 r))) ?m1"
  show "pollOrder deps (clock r) r m = fst (resume deps clock (AwaitFetch r) ?m1)"
    if "snd (resume deps clock (AwaitFetch r) ?m1) = None"
    using that by (simp add: pollOrder_phases pollOrder_settle_None)
  show "pollOrder deps (clock r) r m = fst (resume deps clock q (fst (resume deps clock (AwaitFetch r) ?m1)))"
    if "snd (resume deps clock (AwaitFetch r) ?m1) = Some q"
  proof -
    from that resume_next_shape [OF that] obtain old new st
      where q: "q = AwaitWrite r old new st" and F: "snd ?F = Some (AwaitWrite r old new st)"
      by auto
    show ?thesis
      unfolding pollOrder_phases pollOrder_settle_Some [OF F] q
      by (simp add: pollOrder_fetched_frame pollOrder_fetched_telegramId)
  qed
qed

lemma tick_rounds:
  "tick deps now clock m =
     fst (resume_all deps clock
            (snd (resume_all deps clock (map AwaitFetch (batch now m)) (tick_dispatch now m)))
            (fst (resume_all deps clock (map AwaitFetch (batch now m)) (tick_dispatch now m))))"
proof (cases "batch now m = []")
  case True
  then show ?thesis by (simp add: tick_def tick_dispatch_def)
next
  case False
  then have "toPoll now m \<noteq> []" by (auto simp: batch_def)
  with False show ?thesis by (simp add: tick_def split: prod.splits)
qed

lemma tick_activePollCount: "activePollCount (tick deps now clock m) = activePollCount m"
proof -
  let ?R1 = "resume_all deps clock (map AwaitFetch (batch now m)) (tick_dispatch now m)"
  have "\<forall>q \<in> set (snd ?R1). \<exists>r old new st. q = AwaitWrite r old new st"
    using resume_all_writing [of _ deps clock "map AwaitFetch (batch now m)" "tick_dispatch now m"]
    by simp
  then have "snd (resume_all deps clock (snd ?R1) (fst ?R1)) = []"
    by (rule resume_all_ends)
  with resume_all_count [of deps clock "snd ?R1" "fst ?R1"]
    resume_all_count [of deps clock "map AwaitFetch (batch now m)" "tick_dispatch now m"]
  show ?thesis by (simp add: tick_rounds tick_dispatch_frame)
qed

lemma tick_effects: "\<exists>es. effects (tick deps now clock m) = effects m @ es"
proof -
  let ?R1 = "resume_all deps clock (map AwaitFetch (batch now m)) (tick_dispatch now m)"
  from resume_all_effects [of deps clock "map AwaitFetch (batch now m)" "tick_dispatch now m"]
  obtain es1 where es1: "effects (fst ?R1) = effects (tick_dispatch now m) @ es1" by (elim exE)
  from resume_all_effects [of deps clock "snd ?R1" "fst ?R1"]
  obtain es2 where es2: "effects (tick deps now clock m) = effects (fst ?R1) @ es2"
    unfolding tick_rounds by (elim exE)
  have "effects (tick_dispatch now m) =
      effects m @ map (\<lambda>r. GetOrderStatus (orderId (objects m r))) (batch now m)"
    by (simp add: tick_dispatch_def enter_all_effects)
  with es1 es2 have "effects (tick deps now clock m) =
      effects m @ (map (\<lambda>r. GetOrderStatus (orderId (objects m r))) (batch now m) @ es1 @ es2)"
    by simp
  then show ?thesis by (rule exI)
qed

lemma tick_tracked_subset: "set (tracked (tick deps now clock m)) \<subseteq> set (tracked m)"
proof -
  let ?R1 = "resume_all deps clock (map AwaitFetch (batch now m)) (tick_dispatch now m)"
  have "set (tracked (tick deps now clock m)) \<subseteq> set (tracked (fst ?R1))"
    unfolding tick_rounds by (rule resume_all_tracked_subset)
  also have "\<dots> \<subseteq> set (tracked (tick_dispatch now m))"
    by (rule resume_all_tracked_subset)
  finally show ?thesis by (simp add: tick_dispatch_frame)
qed

lemma wf_other_key:
  assumes "wf m" and "(k, r') \<in> set (tracked m)" and "r \<in> snd ` set (tracked m)" and "r \<noteq> r'"
  shows "orderId (objects m r) \<noteq> k"
proof
  assume eq: "orderId (objects m r) = k"
  from assms(3) obtain k0 where k0: "(k0, r) \<in> set (tracked m)" by auto
  with assms(1) have "orderId (objects m r) = k0" by (auto simp: wf_def)
  with eq have "k0 = k" by simp
  moreover from assms(1) have "inj_on fst (set (tracked m))"
    by (simp add: wf_def distinct_map)
  ultimately have "(k0, r) = (k, r')"
    using k0 assms(2) inj_onD [of fst "set (tracked m)" "(k0, r)" "(k, r')"] by simp
  with assms(4) show False by simp
qed

lemma batch_tracked: "r \<in> set (batch now m) \<Longrightarrow> r \<in> snd ` set (tracked m)"
  using set_batch [of now m] set_toPoll [of now m] by auto

text \<open>An order outside the batch is as it was at the end of the tick.\<close>

lemma tick_view_out:
  assumes "wf m" and "(k, r') \<in> set (tracked m)" and "r' \<notin> set (batch now m)"
  shows "view k r' (tick deps now clock m) = view k r' m"
proof -
  let ?m1 = "tick_dispatch now m"
  let ?ps = "map AwaitFetch (batch now m)"
  let ?R1 = "resume_all deps clock ?ps ?m1"
  have key: "orderId (objects m r) \<noteq> k" and ne: "r \<noteq> r'" if "r \<in> set (batch now m)" for r
  proof -
    from that assms(3) show "r \<noteq> r'" by auto
    with assms(1,2) batch_tracked [OF that] show "orderId (objects m r) \<noteq> k"
      by (intro wf_other_key)
  qed
  have v1: "view k r' ?m1 = view k r' m"
    unfolding tick_dispatch_def using key by (intro enter_all_view_other) simp
  have "\<forall>p \<in> set ?ps. ref_of p \<noteq> r' \<and> orderId (objects ?m1 (ref_of p)) \<noteq> k"
    using key ne by (auto simp: tick_dispatch_frame)
  then have v2: "view k r' (fst ?R1) = view k r' ?m1"
    by (rule resume_all_view_other)
  have "ref_of q \<noteq> r' \<and> orderId (objects (fst ?R1) (ref_of q)) \<noteq> k" if "q \<in> set (snd ?R1)" for q
  proof -
    from resume_all_refs [OF that] have "ref_of q \<in> set (batch now m)" by auto
    with key ne show ?thesis by (simp add: resume_all_key tick_dispatch_frame)
  qed
  then have "view k r' (fst (resume_all deps clock (snd ?R1) (fst ?R1))) = view k r' (fst ?R1)"
    by (intro resume_all_view_other) simp
  with v1 v2 show ?thesis by (simp add: tick_rounds)
qed

text \<open>An order of the batch is, at the end of the tick, as if it had been polled alone.\<close>

lemma tick_view_in:
  assumes "wf m" and "(k, r') \<in> set (tracked m)" and "r' \<in> set (batch now m)"
  shows "view k r' (tick deps now clock m) = view k r' (pollOrder deps (clock r') r' m)"
proof -
  let ?m1 = "tick_dispatch now m"
  let ?ps = "map AwaitFetch (batch now m)"
  let ?R1 = "resume_all deps clock ?ps ?m1"
  let ?e = "pollOrder_enter r' m"
  let ?f = "resume deps clock (AwaitFetch r') ?e"
  have key: "orderId (objects m r) \<noteq> k" if "r \<in> set (batch now m)" "r \<noteq> r'" for r
    using assms(1,2) batch_tracked [OF that(1)] that(2) by (intro wf_other_key)
  have dist: "distinct (map ref_of ?ps)"
    using distinct_batch [OF assms(1), of now] by (simp add: comp_def)
  have v1: "view k r' ?m1 = view k r' ?e"
    unfolding tick_dispatch_def
    using distinct_batch [OF assms(1)] assms(3) key by (intro enter_all_view_own) simp_all
  have "view k (ref_of (AwaitFetch r')) (fst ?R1)
      = view k (ref_of (AwaitFetch r')) (fst (resume deps clock (AwaitFetch r') ?m1))"
    using dist assms(3) key by (intro resume_all_view_own) (auto simp: tick_dispatch_frame)
  also have "\<dots> = view k (ref_of (AwaitFetch r')) (fst ?f)"
    using v1 by (intro resume_view_local) simp_all
  finally have v2: "view k r' (fst ?R1) = view k r' (fst ?f)" by simp
  have next1: "snd (resume deps clock (AwaitFetch r') ?m1) = snd ?f"
    by (rule resume_next_local) (simp add: tick_dispatch_frame pollOrder_enter_frame)
  have ws: "snd ?R1 = concat (map (\<lambda>p. case snd (resume deps clock p ?m1) of None \<Rightarrow> [] | Some q \<Rightarrow> [q]) ?ps)"
    using dist by (rule resume_all_next)
  have wdist: "distinct (map ref_of (snd ?R1))"
    using dist by (rule resume_all_distinct)
  have wkey: "orderId (objects (fst ?R1) (ref_of q)) \<noteq> k" if "q \<in> set (snd ?R1)" "ref_of q \<noteq> r'" for q
  proof -
    from resume_all_refs [OF that(1)] have "ref_of q \<in> set (batch now m)" by auto
    with key that(2) show ?thesis by (simp add: resume_all_key tick_dispatch_frame)
  qed
  show ?thesis
  proof (cases "snd ?f")
    case None
    have "ref_of q \<noteq> r'" if q: "q \<in> set (snd ?R1)" for q
    proof
      assume r': "ref_of q = r'"
      from q obtain r where r: "r \<in> set (batch now m)"
        and src: "snd (resume deps clock (AwaitFetch r) ?m1) = Some q"
        unfolding ws by (auto split: option.splits)
      from src have "ref_of q = r" using resume_next_ref [OF src] by simp
      with r' src next1 None show False by simp
    qed
    with wkey have "\<forall>q \<in> set (snd ?R1). ref_of q \<noteq> r' \<and> orderId (objects (fst ?R1) (ref_of q)) \<noteq> k"
      by simp
    then have "view k r' (fst (resume_all deps clock (snd ?R1) (fst ?R1))) = view k r' (fst ?R1)"
      by (rule resume_all_view_other)
    with v2 None show ?thesis
      by (simp add: tick_rounds pollOrder_rounds(1))
  next
    case (Some q')
    then have ref: "ref_of q' = r'" using resume_next_ref [OF Some] by simp
    from Some next1 assms(3) have mem: "q' \<in> set (snd ?R1)"
      unfolding ws by (force split: option.splits)
    have "view k (ref_of q') (fst (resume_all deps clock (snd ?R1) (fst ?R1)))
        = view k (ref_of q') (fst (resume deps clock q' (fst ?R1)))"
      using wdist mem wkey ref by (intro resume_all_view_own) simp_all
    also have "\<dots> = view k (ref_of q') (fst (resume deps clock q' (fst ?f)))"
      using v2 ref by (intro resume_view_local) simp_all
    finally show ?thesis
      using Some ref by (simp add: tick_rounds pollOrder_rounds(2))
  qed
qed

lemma view_eqD:
  assumes "view k r a = view k r b"
  shows "objects a r = objects b r"
    and "((k, r) \<in> set (tracked a)) = ((k, r) \<in> set (tracked b))"
    and "filter (about k) (effects a) = filter (about k) (effects b)"
  using assms by (simp_all add: view_def)

lemma pollOrder_effects:
  "\<exists>es. effects (pollOrder deps t r m) = effects m @ es \<and>
        (\<forall>e \<in> set es. about (orderId (objects m r)) e)"
  by (simp add: pollOrder_def call_def untrackOrder_def Let_def split: sum.splits callback_result.splits)

lemma pollOrder_tracked_subset: "set (tracked (pollOrder deps t r m)) \<subseteq> set (tracked m)"
  using pollOrder_settle_frame(4) [of deps t r "pollOrder_enter r m"]
  by (simp add: pollOrder_phases pollOrder_enter_frame)

lemma tracked_has_entry:
  assumes "wf m" and "(k, r) \<in> set (tracked m)" and "set (tracked m') \<subseteq> set (tracked m)"
  shows "tracked_has m' k \<longleftrightarrow> (k, r) \<in> set (tracked m')"
proof
  assume "tracked_has m' k"
  then obtain r0 where r0: "(k, r0) \<in> set (tracked m')" by (auto simp: tracked_has_iff)
  with assms(3) have "(k, r0) \<in> set (tracked m)" by auto
  moreover from assms(1) have "inj_on fst (set (tracked m))" by (simp add: wf_def distinct_map)
  ultimately have "(k, r0) = (k, r)"
    using assms(2) inj_onD [of fst "set (tracked m)" "(k, r0)" "(k, r)"] by simp
  with r0 show "(k, r) \<in> set (tracked m')" by simp
next
  assume "(k, r) \<in> set (tracked m')"
  then show "tracked_has m' k" by (force simp: tracked_has_iff)
qed

text \<open>
  Within a tick, what the state holds for an order of the batch is what its own poll, run
  alone from the state before the tick, leaves.
\<close>

lemma tick_as_alone:
  assumes "wf m" and "r \<in> set (batch now m)"
  shows "objects (tick deps now clock m) r = objects (pollOrder deps (clock r) r m) r"
    and "filter (about (orderId (objects m r))) (emitted m (tick deps now clock m))
           = emitted m (pollOrder deps (clock r) r m)"
    and "tracked_has (tick deps now clock m) (orderId (objects m r))
           = tracked_has (pollOrder deps (clock r) r m) (orderId (objects m r))"
    and "((orderId (objects m r), r) \<in> set (tracked (tick deps now clock m)))
           = ((orderId (objects m r), r) \<in> set (tracked (pollOrder deps (clock r) r m)))"
proof -
  let ?k = "orderId (objects m r)"
  from batch_tracked [OF assms(2)] obtain k where "(k, r) \<in> set (tracked m)" by auto
  with assms(1) have k: "(?k, r) \<in> set (tracked m)" by (auto simp: wf_def)
  note v = view_eqD [OF tick_view_in [OF assms(1) k assms(2), of deps clock]]
  from v(1) show "objects (tick deps now clock m) r = objects (pollOrder deps (clock r) r m) r" .
  from v(2) show entry: "((?k, r) \<in> set (tracked (tick deps now clock m)))
      = ((?k, r) \<in> set (tracked (pollOrder deps (clock r) r m)))" .
  from entry show "tracked_has (tick deps now clock m) ?k = tracked_has (pollOrder deps (clock r) r m) ?k"
    by (simp add: tracked_has_entry [OF assms(1) k] tick_tracked_subset pollOrder_tracked_subset)
  from tick_effects [of deps now clock m] obtain es
    where es: "effects (tick deps now clock m) = effects m @ es" by (elim exE)
  from pollOrder_effects [of deps "clock r" r m] obtain es'
    where es': "effects (pollOrder deps (clock r) r m) = effects m @ es'"
      "\<forall>e \<in> set es'. about ?k e" by (elim exE conjE)
  from v(3) have "filter (about ?k) es = filter (about ?k) es'"
    by (simp add: es es'(1))
  also from es'(2) have "\<dots> = es'" by (simp add: filter_id_conv)
  finally show "filter (about ?k) (emitted m (tick deps now clock m)) = emitted m (pollOrder deps (clock r) r m)"
    by (simp add: emitted_def es es'(1))
qed

lemma pollOrder_changed_written:
  assumes "getOrderStatus deps (orderId (objects m r)) = Inr st"
    and "SideShiftOrderStatus.status st \<noteq> lastStatus (objects m r)"
  shows "UpdateOrderStatus (orderId (objects m r)) (SideShiftOrderStatus.status st)
           \<in> set (emitted m (pollOrder deps t r m))"
    and "updateOrderStatus deps (orderId (objects m r)) (SideShiftOrderStatus.status st) = Inr () \<Longrightarrow>
         OnStatusChange (telegramId (objects m r)) (orderId (objects m r)) (lastStatus (objects m r))
           (SideShiftOrderStatus.status st) st \<in> set (emitted m (pollOrder deps t r m))"
  using assms
  by (simp_all add: pollOrder_def call_def untrackOrder_def emitted_def Let_def
      split: sum.splits callback_result.splits)

lemma pollOrder_keeps_entry:
  assumes "getOrderStatus deps (orderId (objects m r)) = Inr st"
    and "SideShiftOrderStatus.status st = lastStatus (objects m r) \<or>
         SideShiftOrderStatus.status st \<notin> TERMINAL_STATUSES"
  shows "tracked (pollOrder deps t r m) = tracked m"
  using assms
  by (auto simp add: pollOrder_def call_def untrackOrder_def Let_def
      split: sum.splits callback_result.splits)

lemma pollOrder_removes_entry:
  assumes "getOrderStatus deps (orderId (objects m r)) = Inr st"
    and "SideShiftOrderStatus.status st \<noteq> lastStatus (objects m r)"
    and "updateOrderStatus deps (orderId (objects m r)) (SideShiftOrderStatus.status st) = Inr ()"
    and "\<not> throws (onStatusChange deps (telegramId (objects m r)) (orderId (objects m r))
           (lastStatus (objects m r)) (SideShiftOrderStatus.status st) st)"
    and "SideShiftOrderStatus.status st \<in> TERMINAL_STATUSES"
  shows "\<not> tracked_has (pollOrder deps t r m) (orderId (objects m r))"
  using assms
  by (simp add: pollOrder_notified tracked_has_def tracked_get_def map_of_filter_key)

lemma twoOrders_facts:
  "wf twoOrders" "tracked twoOrders = [(''order-1'', 0), (''order-2'', 1)]"
  "objects twoOrders 0 = \<lparr>orderId = ''order-1'', telegramId = 100, createdAt = 0, lastChecked = 0, lastStatus = ''pending''\<rparr>"
  "objects twoOrders (Suc 0) = \<lparr>orderId = ''order-2'', telegramId = 200, createdAt = 0, lastChecked = 0, lastStatus = ''pending''\<rparr>"
  "activePollCount twoOrders = 0" "effects twoOrders = []"
  by (simp_all add: twoOrders_def oneOrder_def trackOrder_def newOrderMonitor_def tracked_has_def
      tracked_get_def wf_def)

lemma twoOrders_batch: "batch 20000 twoOrders = [0, 1]"
  by (simp add: batch_def toPoll_def due_def getBackoffInterval_def slice0_def MAX_CONCURRENT_def
      twoOrders_facts Let_def)

text \<open>
  C6. When the status fetch of an order fails, the poll leaves the map, every tracked object
  (so \<open>lastStatus\<close> too) and the count of active polls as they were, and makes neither a
  notification nor a write. Within one tick, an order of the batch whose fetch fails keeps
  its entry and its object, and the only calls made for it are the fetch and the error log.
  Any other order of the batch whose fetch succeeds completes: its object, the calls made
  for it (in their order) and its presence in the map are those of its own poll run alone,
  so its check time and status are recorded, a changed status is written, it is notified
  when the write resolves, and it is removed when it has reached a terminal status and the
  callback has not thrown; at the end of the tick the count of active polls is what it was.
\<close>

theorem failed_fetch_is_isolated:
  "(getOrderStatus deps (orderId (objects m r)) = Inl e \<longrightarrow>
      tracked (pollOrder deps t r m) = tracked m \<and>
      objects (pollOrder deps t r m) = objects m \<and>
      notifications (pollOrder deps t r m) = notifications m \<and>
      writes (pollOrder deps t r m) = writes m \<and>
      activePollCount (pollOrder deps t r m) = activePollCount m) \<and>
   (wf m \<and> r \<in> set (batch now m) \<and> r' \<in> set (batch now m) \<and>
    getOrderStatus deps (orderId (objects m r)) = Inl e \<and>
    getOrderStatus deps (orderId (objects m r')) = Inr st \<longrightarrow>
      objects (tick deps now clock m) r = objects m r \<and>
      (orderId (objects m r), r) \<in> set (tracked (tick deps now clock m)) \<and>
      filter (about (orderId (objects m r))) (emitted m (tick deps now clock m))
        = [GetOrderStatus (orderId (objects m r)), ConsoleError (orderId (objects m r))] \<and>
      objects (tick deps now clock m) r' = objects (pollOrder deps (clock r') r' m) r' \<and>
      lastChecked (objects (tick deps now clock m) r') = clock r' \<and>
      lastStatus (objects (tick deps now clock m) r') = SideShiftOrderStatus.status st \<and>
      filter (about (orderId (objects m r'))) (emitted m (tick deps now clock m))
        = emitted m (pollOrder deps (clock r') r' m) \<and>
      tracked_has (tick deps now clock m) (orderId (objects m r'))
        = tracked_has (pollOrder deps (clock r') r' m) (orderId (objects m r')) \<and>
      activePollCount (tick deps now clock m) = activePollCount m \<and>
      (SideShiftOrderStatus.status st \<noteq> lastStatus (objects m r') \<longrightarrow>
         UpdateOrderStatus (orderId (objects m r')) (SideShiftOrderStatus.status st)
           \<in> set (emitted m (tick deps now clock m))) \<and>
      (SideShiftOrderStatus.status st \<noteq> lastStatus (objects m r') \<and>
       updateOrderStatus deps (orderId (objects m r')) (SideShiftOrderStatus.status st) = Inr () \<longrightarrow>
         OnStatusChange (telegramId (objects m r')) (orderId (objects m r'))
           (lastStatus (objects m r')) (SideShiftOrderStatus.status st) st
           \<in> set (emitted m (tick deps now clock m))) \<and>
      (SideShiftOrderStatus.status st \<noteq> lastStatus (objects m r') \<and>
       updateOrderStatus deps (orderId (objects m r')) (SideShiftOrderStatus.status st) = Inr () \<and>
       \<not> throws (onStatusChange deps (telegramId (objects m r')) (orderId (objects m r'))
            (lastStatus (objects m r')) (SideShiftOrderStatus.status st) st) \<and>
       SideShiftOrderStatus.status st \<in> TERMINAL_STATUSES \<longrightarrow>
         \<not> tracked_has (tick deps now clock m) (orderId (objects m r'))) \<and>
      (SideShiftOrderStatus.status st = lastStatus (objects m r') \<or>
       SideShiftOrderStatus.status st \<notin> TERMINAL_STATUSES \<longrightarrow>
         tracked_has (tick deps now clock m) (orderId (objects m r'))))"
proof -
  let ?T = "tick deps now clock m"
  let ?k = "orderId (objects m r)" and ?k' = "orderId (objects m r')"
  let ?new = "SideShiftOrderStatus.status st" and ?old = "lastStatus (objects m r')"
  let ?A = "pollOrder deps (clock r') r' m"
  have single: "tracked (pollOrder deps t r m) = tracked m \<and>
      objects (pollOrder deps t r m) = objects m \<and>
      notifications (pollOrder deps t r m) = notifications m \<and>
      writes (pollOrder deps t r m) = writes m \<and>
      activePollCount (pollOrder deps t r m) = activePollCount m"
    if "getOrderStatus deps ?k = Inl e"
    using that by (simp add: pollOrder_fetch_fails notifications_def writes_def)
  have in_tick: "objects ?T r = objects m r \<and> (?k, r) \<in> set (tracked ?T) \<and>
      filter (about ?k) (emitted m ?T) = [GetOrderStatus ?k, ConsoleError ?k] \<and>
      objects ?T r' = objects ?A r' \<and>
      lastChecked (objects ?T r') = clock r' \<and>
      lastStatus (objects ?T r') = ?new \<and>
      filter (about ?k') (emitted m ?T) = emitted m ?A \<and>
      tracked_has ?T ?k' = tracked_has ?A ?k' \<and>
      activePollCount ?T = activePollCount m \<and>
      (?new \<noteq> ?old \<longrightarrow> UpdateOrderStatus ?k' ?new \<in> set (emitted m ?T)) \<and>
      (?new \<noteq> ?old \<and> updateOrderStatus deps ?k' ?new = Inr () \<longrightarrow>
         OnStatusChange (telegramId (objects m r')) ?k' ?old ?new st \<in> set (emitted m ?T)) \<and>
      (?new \<noteq> ?old \<and> updateOrderStatus deps ?k' ?new = Inr () \<and>
       \<not> throws (onStatusChange deps (telegramId (objects m r')) ?k' ?old ?new st) \<and>
       ?new \<in> TERMINAL_STATUSES \<longrightarrow> \<not> tracked_has ?T ?k') \<and>
      (?new = ?old \<or> ?new \<notin> TERMINAL_STATUSES \<longrightarrow> tracked_has ?T ?k')"
    if wf: "wf m" and r: "r \<in> set (batch now m)" and r': "r' \<in> set (batch now m)"
      and fails: "getOrderStatus deps ?k = Inl e" and ok: "getOrderStatus deps ?k' = Inr st"
  proof -
    from batch_tracked [OF r] obtain k0 where "(k0, r) \<in> set (tracked m)" by auto
    with wf have k: "(?k, r) \<in> set (tracked m)" by (auto simp: wf_def)
    from batch_tracked [OF r'] obtain k1 where "(k1, r') \<in> set (tracked m)" by auto
    with wf have k': "(?k', r') \<in> set (tracked m)" by (auto simp: wf_def)
    note failing = tick_as_alone [OF wf r, of deps clock]
    note sibling = tick_as_alone [OF wf r', of deps clock]
    have alone: "pollOrder deps (clock r) r m = m\<lparr>effects := effects m @ [GetOrderStatus ?k, ConsoleError ?k]\<rparr>"
      using fails by (rule pollOrder_fetch_fails)
    have 1: "objects ?T r = objects m r"
      using failing(1) by (simp add: alone)
    have 2: "(?k, r) \<in> set (tracked ?T)"
      using failing(4) k by (simp add: alone)
    have 3: "filter (about ?k) (emitted m ?T) = [GetOrderStatus ?k, ConsoleError ?k]"
      using failing(2) by (simp add: alone emitted_def)
    have 5: "lastChecked (objects ?T r') = clock r'" and 6: "lastStatus (objects ?T r') = ?new"
      using sibling(1) pollOrder_fetch_time [OF ok, of "clock r'"] pollOrder_lastStatus [OF ok, of "clock r'"]
      by simp_all
    have sub: "set (emitted m ?A) \<subseteq> set (emitted m ?T)"
      unfolding sibling(2) [symmetric] by (rule filter_is_subset)
    have 10: "UpdateOrderStatus ?k' ?new \<in> set (emitted m ?T)" if "?new \<noteq> ?old"
      using pollOrder_changed_written(1) [OF ok that, of "clock r'"] sub by (rule subsetD [rotated])
    have 11: "OnStatusChange (telegramId (objects m r')) ?k' ?old ?new st \<in> set (emitted m ?T)"
      if "?new \<noteq> ?old" "updateOrderStatus deps ?k' ?new = Inr ()"
      using pollOrder_changed_written(2) [OF ok that, of "clock r'"] sub by (rule subsetD [rotated])
    have 12: "\<not> tracked_has ?T ?k'"
      if "?new \<noteq> ?old" "updateOrderStatus deps ?k' ?new = Inr ()"
        "\<not> throws (onStatusChange deps (telegramId (objects m r')) ?k' ?old ?new st)"
        "?new \<in> TERMINAL_STATUSES"
      using pollOrder_removes_entry [OF ok that, of "clock r'"] by (simp add: sibling(3))
    have 13: "tracked_has ?T ?k'" if "?new = ?old \<or> ?new \<notin> TERMINAL_STATUSES"
    proof -
      have "tracked ?A = tracked m" using ok that by (rule pollOrder_keeps_entry)
      with k' have "tracked_has ?A ?k'" by (force simp: tracked_has_iff)
      then show ?thesis by (simp add: sibling(3))
    qed
    from 1 2 3 sibling(1) 5 6 sibling(2) sibling(3) tick_activePollCount [of deps now clock m]
      10 11 12 13
    show ?thesis by simp
  qed
  show ?thesis
  proof (rule conjI)
    show "getOrderStatus deps ?k = Inl e \<longrightarrow>
      tracked (pollOrder deps t r m) = tracked m \<and>
      objects (pollOrder deps t r m) = objects m \<and>
      notifications (pollOrder deps t r m) = notifications m \<and>
      writes (pollOrder deps t r m) = writes m \<and>
      activePollCount (pollOrder deps t r m) = activePollCount m"
      by (rule impI) (rule single)
  qed (rule impI, elim conjE, rule in_tick)
qed

theorem failed_fetch_is_isolated_witness:
  "tracked (pollOrder (createMockDeps rejects (Inr ()) Returns) 11000 0 oneOrder) = [(''order-1'', 0)] \<and>
   lastStatus (objects (pollOrder (createMockDeps rejects (Inr ()) Returns) 11000 0 oneOrder) 0) = ''pending'' \<and>
   notifications (pollOrder (createMockDeps rejects (Inr ()) Returns) 11000 0 oneOrder) = [] \<and>
   writes (pollOrder (createMockDeps rejects (Inr ()) Returns) 11000 0 oneOrder) = [] \<and>
   batch 20000 twoOrders = [0, 1] \<and>
   (''order-1'', 0) \<in> set (tracked (tick (createMockDeps (rejectsFor ''order-1'' ''settled'') (Inr ()) Returns)
       20000 (\<lambda>r. 20500) twoOrders)) \<and>
   lastStatus (objects (tick (createMockDeps (rejectsFor ''order-1'' ''settled'') (Inr ()) Returns)
       20000 (\<lambda>r. 20500) twoOrders) 0) = ''pending'' \<and>
   lastChecked (objects (tick (createMockDeps (rejectsFor ''order-1'' ''settled'') (Inr ()) Returns)
       20000 (\<lambda>r. 20500) twoOrders) 1) = 20500 \<and>
   lastStatus (objects (tick (createMockDeps (rejectsFor ''order-1'' ''settled'') (Inr ()) Returns)
       20000 (\<lambda>r. 20500) twoOrders) 1) = ''settled'' \<and>
   OnStatusChange 200 ''order-2'' ''pending'' ''settled'' (mockStatus ''order-2'' ''settled'')
     \<in> set (effects (tick (createMockDeps (rejectsFor ''order-1'' ''settled'') (Inr ()) Returns)
       20000 (\<lambda>r. 20500) twoOrders)) \<and>
   \<not> tracked_has (tick (createMockDeps (rejectsFor ''order-1'' ''settled'') (Inr ()) Returns)
       20000 (\<lambda>r. 20500) twoOrders) ''order-2'' \<and>
   activePollCount (tick (createMockDeps (rejectsFor ''order-1'' ''settled'') (Inr ()) Returns)
       20000 (\<lambda>r. 20500) twoOrders) = 0 \<and>
   effects (tick (createMockDeps (rejectsFor ''order-1'' ''settled'') (Inr ()) Returns)
       20000 (\<lambda>r. 20500) twoOrders) =
     [GetOrderStatus ''order-1'', GetOrderStatus ''order-2'', ConsoleError ''order-1'',
      UpdateOrderStatus ''order-2'' ''settled'',
      OnStatusChange 200 ''order-2'' ''pending'' ''settled'' (mockStatus ''order-2'' ''settled'')]"
proof -
  let ?d1 = "createMockDeps rejects (Inr ()) Returns"
  let ?d2 = "createMockDeps (rejectsFor ''order-1'' ''settled'') (Inr ()) Returns"
  let ?T = "tick ?d2 20000 (\<lambda>r. 20500) twoOrders"
  have f1: "getOrderStatus ?d1 (orderId (objects oneOrder 0)) = Inl (Error ''Network error'')"
    by (simp add: oneOrder_facts createMockDeps_def rejects_def)
  have f2: "getOrderStatus ?d2 (orderId (objects twoOrders 0)) = Inl (Error ''Network error'')"
    "getOrderStatus ?d2 (orderId (objects twoOrders 1)) = Inr (mockStatus ''order-2'' ''settled'')"
    by (simp_all add: twoOrders_facts createMockDeps_def rejects_def rejectsFor_def resolves_def)
  have b: "0 \<in> set (batch 20000 twoOrders)" "1 \<in> set (batch 20000 twoOrders)"
    by (simp_all add: twoOrders_batch)
  note single = failed_fetch_is_isolated
    [where deps = ?d1 and m = oneOrder and r = 0 and e = "Error ''Network error''" and t = 11000,
     THEN conjunct1, rule_format, OF f1]
  note both = failed_fetch_is_isolated
    [where deps = ?d2 and m = twoOrders and r = 0 and e = "Error ''Network error''"
       and now = 20000 and r' = 1 and st = "mockStatus ''order-2'' ''settled''"
       and clock = "\<lambda>r. 20500",
     THEN conjunct2, rule_format,
     OF conjI [OF twoOrders_facts(1) conjI [OF b(1) conjI [OF b(2) conjI [OF f2]]]]]
  have facts: "orderId (objects twoOrders 1) = ''order-2''" "telegramId (objects twoOrders 1) = 200"
    "lastStatus (objects twoOrders 1) = ''pending''" "emitted twoOrders ?T = effects ?T"
    "SideShiftOrderStatus.status (mockStatus ''order-2'' ''settled'') = ''settled''"
    "updateOrderStatus ?d2 ''order-2'' ''settled'' = Inr ()"
    "\<not> throws (onStatusChange ?d2 200 ''order-2'' ''pending'' ''settled'' (mockStatus ''order-2'' ''settled''))"
    by (simp_all add: twoOrders_facts emitted_def mockStatus_def createMockDeps_def)
  have order: "effects ?T =
     [GetOrderStatus ''order-1'', GetOrderStatus ''order-2'', ConsoleError ''order-1'',
      UpdateOrderStatus ''order-2'' ''settled'',
      OnStatusChange 200 ''order-2'' ''pending'' ''settled'' (mockStatus ''order-2'' ''settled'')]"
    by (simp add: tick_def tick_dispatch_def twoOrders_batch toPoll_def due_def
        getBackoffInterval_def twoOrders_facts poll_defs createMockDeps_def rejectsFor_def
        rejects_def resolves_def mockStatus_def TERMINAL_STATUSES_def)
  note t1 = both [THEN conjunct2]
  note t2 = t1 [THEN conjunct2]
  note t4 = t2 [THEN conjunct2, THEN conjunct2]
  note t5 = t4 [THEN conjunct2]
  note t8 = t5 [THEN conjunct2, THEN conjunct2, THEN conjunct2]
  note t10 = t8 [THEN conjunct2, THEN conjunct2]
  note t11 = t10 [THEN conjunct2]
  have sibling:
    "(''order-1'', 0) \<in> set (tracked ?T)" "objects ?T 0 = objects twoOrders 0"
    "lastChecked (objects ?T 1) = 20500" "lastStatus (objects ?T 1) = ''settled''"
    "OnStatusChange 200 ''order-2'' ''pending'' ''settled'' (mockStatus ''order-2'' ''settled'')
       \<in> set (effects ?T)"
    "\<not> tracked_has ?T ''order-2''" "activePollCount ?T = 0"
    using both [THEN conjunct1] t1 [THEN conjunct1] t4 [THEN conjunct1] t5 [THEN conjunct1]
      t8 [THEN conjunct1] t10 [THEN conjunct1] t11 [THEN conjunct1]
    by (simp_all add: facts twoOrders_facts TERMINAL_STATUSES_def)
  from single sibling order show ?thesis
    by (simp add: oneOrder_facts twoOrders_facts twoOrders_batch notifications_def writes_def)
qed

subsection \<open>Reconciliation at startup\<close>

lemma map_of_append_other: "k \<noteq> k' \<Longrightarrow> map_of (xs @ [(k', v)]) k = map_of xs k"
  by (induction xs) auto

lemma trackOrder_get_other:
  "k \<noteq> oid \<Longrightarrow> tracked_get (trackOrder oid tid created now m) k = tracked_get m k"
  by (simp add: trackOrder_def tracked_get_def map_of_append_other del: map_of_append)

lemma trackOrder_has: "tracked_has (trackOrder oid tid created now m) oid"
  by (simp add: trackOrder_def tracked_has_iff)

lemma trackOrder_objects_old:
  "r < nextRef m \<Longrightarrow> objects (trackOrder oid tid created now m) r = objects m r"
  by (simp add: trackOrder_def)

lemma loadOne_tracked:
  "tracked (loadOne now ord m) = tracked (trackOrder (sideshiftOrderId ord) (Order.telegramId ord) (Order.createdAt ord) now m)"
  "nextRef (loadOne now ord m) = nextRef (trackOrder (sideshiftOrderId ord) (Order.telegramId ord) (Order.createdAt ord) now m)"
  "orderId (objects (loadOne now ord m) r) = orderId (objects (trackOrder (sideshiftOrderId ord) (Order.telegramId ord) (Order.createdAt ord) now m) r)"
  by (simp_all add: loadOne_def Let_def split: option.splits)

lemma wf_loadOne: "wf m \<Longrightarrow> wf (loadOne now ord m)"
  using wf_trackOrder [of m "sideshiftOrderId ord" "Order.telegramId ord" "Order.createdAt ord" now]
  by (simp add: wf_def loadOne_tracked)

lemma loadOne_has: "tracked_has (loadOne now ord m) (sideshiftOrderId ord)"
  using trackOrder_has [of "sideshiftOrderId ord" "Order.telegramId ord" "Order.createdAt ord" now m]
  by (simp add: tracked_has_iff loadOne_tracked)

lemma loadOne_keeps_has: "tracked_has m k \<Longrightarrow> tracked_has (loadOne now ord m) k"
  by (auto simp: tracked_has_iff loadOne_tracked trackOrder_def)

lemma loadOne_entry:
  "\<exists>e. entry (loadOne now ord m) (sideshiftOrderId ord) = Some e \<and> lastStatus e = Order.status ord"
proof -
  let ?m1 = "trackOrder (sideshiftOrderId ord) (Order.telegramId ord) (Order.createdAt ord) now m"
  from trackOrder_has [of "sideshiftOrderId ord" "Order.telegramId ord" "Order.createdAt ord" now m]
  obtain r where r: "tracked_get ?m1 (sideshiftOrderId ord) = Some r"
    by (auto simp: tracked_has_def)
  then show ?thesis
    by (simp add: entry_def loadOne_def tracked_get_def Let_def)
qed

lemma loadOne_other:
  assumes "wf m" and "k \<noteq> sideshiftOrderId ord"
  shows "entry (loadOne now ord m) k = entry m k"
proof (cases "tracked_get m k")
  case None
  with assms(2) show ?thesis
    using trackOrder_get_other [of k "sideshiftOrderId ord" "Order.telegramId ord" "Order.createdAt ord" now m]
    by (simp add: entry_def tracked_get_def loadOne_tracked)
next
  case (Some rk)
  let ?m1 = "trackOrder (sideshiftOrderId ord) (Order.telegramId ord) (Order.createdAt ord) now m"
  have wf1: "wf ?m1" using assms(1) by (rule wf_trackOrder)
  have get1: "tracked_get ?m1 k = Some rk"
    using Some assms(2) by (simp add: trackOrder_get_other)
  have get: "tracked_get (loadOne now ord m) k = Some rk"
    using get1 by (simp add: tracked_get_def loadOne_tracked)
  have old: "objects ?m1 rk = objects m rk"
    using wf_tracked_get(2) [OF assms(1) Some] by (rule trackOrder_objects_old)
  from trackOrder_has [of "sideshiftOrderId ord" "Order.telegramId ord" "Order.createdAt ord" now m]
  obtain r where r: "tracked_get ?m1 (sideshiftOrderId ord) = Some r"
    by (auto simp: tracked_has_def)
  have "orderId (objects ?m1 r) = sideshiftOrderId ord" "orderId (objects ?m1 rk) = k"
    using wf_tracked_get(1) [OF wf1 r] wf_tracked_get(1) [OF wf1 get1] by simp_all
  with assms(2) have "r \<noteq> rk" by auto
  with r have "objects (loadOne now ord m) rk = objects ?m1 rk"
    by (simp add: loadOne_def Let_def)
  with old get Some show ?thesis by (simp add: entry_def)
qed

lemma wf_loadAll: "wf m \<Longrightarrow> wf (fold (loadOne now) ords m)"
  by (induction ords arbitrary: m) (simp_all add: wf_loadOne)

lemma loadAll_keeps_has: "tracked_has m k \<Longrightarrow> tracked_has (fold (loadOne now) ords m) k"
  by (induction ords arbitrary: m) (simp_all add: loadOne_keeps_has)

lemma loadAll_other:
  "wf m \<Longrightarrow> k \<notin> sideshiftOrderId ` set ords \<Longrightarrow> entry (fold (loadOne now) ords m) k = entry m k"
  by (induction ords arbitrary: m) (simp_all add: wf_loadOne loadOne_other)

lemma loadAll_has: "ord \<in> set ords \<Longrightarrow> tracked_has (fold (loadOne now) ords m) (sideshiftOrderId ord)"
proof (induction ords arbitrary: m)
  case Nil
  then show ?case by simp
next
  case (Cons a ords)
  then show ?case
    by (auto simp: loadOne_has loadAll_keeps_has)
qed

lemma loadAll_entry:
  assumes "wf m" and "ord \<in> set ords"
  shows "\<exists>e. entry (fold (loadOne now) ords m) (sideshiftOrderId ord) = Some e \<and>
           lastStatus e = Order.status (last (filter (\<lambda>o'. sideshiftOrderId o' = sideshiftOrderId ord) ords))"
  using assms
proof (induction ords arbitrary: m ord)
  case Nil
  then show ?case by simp
next
  case (Cons a ords)
  let ?P = "\<lambda>o'. sideshiftOrderId o' = sideshiftOrderId ord"
  have wf1: "wf (loadOne now a m)" using Cons.prems(1) by (rule wf_loadOne)
  show ?case
  proof (cases "filter ?P ords = []")
    case True
    then have notin: "sideshiftOrderId ord \<notin> sideshiftOrderId ` set ords"
      by (auto simp: filter_empty_conv)
    with Cons.prems(2) have a: "a = ord" by auto
    have "entry (fold (loadOne now) ords (loadOne now a m)) (sideshiftOrderId ord)
        = entry (loadOne now a m) (sideshiftOrderId ord)"
      using wf1 notin by (rule loadAll_other)
    with loadOne_entry [of now ord m] a True show ?thesis by simp
  next
    case False
    then obtain o' where o': "o' \<in> set ords" "sideshiftOrderId o' = sideshiftOrderId ord"
      by (auto simp: filter_empty_conv)
    from Cons.IH [OF wf1 o'(1)] o'(2) False show ?thesis by simp
  qed
qed

lemma filter_distinct_key:
  "distinct (map f xs) \<Longrightarrow> x \<in> set xs \<Longrightarrow> filter (\<lambda>y. f y = f x) xs = [x]"
proof (induction xs)
  case Nil
  then show ?case by simp
next
  case (Cons a xs)
  show ?case
  proof (cases "a = x")
    case True
    with Cons.prems have "f x \<notin> f ` set xs" by simp
    then have "\<forall>y \<in> set xs. f y \<noteq> f x"
      by (metis imageI)
    then have "filter (\<lambda>y. f y = f x) xs = []"
      by (simp add: filter_empty_conv)
    with True show ?thesis by simp
  next
    case False
    with Cons.prems have "x \<in> set xs" "f a \<noteq> f x" by auto
    with Cons show ?thesis by simp
  qed
qed

text \<open>
  C7. After \<open>loadPendingOrders\<close> on a successful fetch, every order that \<^verbatim>\<open>getPendingOrders\<close>
  returned is in the map, and the \<open>lastStatus\<close> of its entry is the status of the last
  returned row with that order id; the \<^verbatim>\<open>orders\<close> table has a unique constraint on the order
  id, and with distinct ids that is the persisted status of the order itself, not the
  default. When \<^verbatim>\<open>getPendingOrders\<close> is rejected the function still returns, and the map and
  the tracked objects are as they were.
\<close>

theorem loadPendingOrders_reconciles:
  assumes "wf m"
  shows "(getPendingOrders deps = Inr orders \<longrightarrow>
            (\<forall>ord \<in> set orders.
               tracked_has (loadPendingOrders deps now m) (sideshiftOrderId ord) \<and>
               (\<exists>e. entry (loadPendingOrders deps now m) (sideshiftOrderId ord) = Some e \<and>
                    lastStatus e = Order.status
                      (last (filter (\<lambda>o'. sideshiftOrderId o' = sideshiftOrderId ord) orders)))) \<and>
            (distinct (map sideshiftOrderId orders) \<longrightarrow>
               (\<forall>ord \<in> set orders.
                  \<exists>e. entry (loadPendingOrders deps now m) (sideshiftOrderId ord) = Some e \<and>
                      lastStatus e = Order.status ord))) \<and>
         (getPendingOrders deps = Inl err \<longrightarrow>
            tracked (loadPendingOrders deps now m) = tracked m \<and>
            objects (loadPendingOrders deps now m) = objects m)"
proof -
  have wfc: "wf (call GetPendingOrders m)" using assms by (simp add: wf_call)
  have loaded: "tracked_has (loadPendingOrders deps now m) (sideshiftOrderId ord) \<and>
      (\<exists>e. entry (loadPendingOrders deps now m) (sideshiftOrderId ord) = Some e \<and>
           lastStatus e = Order.status
             (last (filter (\<lambda>o'. sideshiftOrderId o' = sideshiftOrderId ord) orders)))"
    if "getPendingOrders deps = Inr orders" and "ord \<in> set orders" for ord
    using that loadAll_has [of ord orders now "call GetPendingOrders m"]
      loadAll_entry [OF wfc that(2), of now]
    by (simp add: loadPendingOrders_def)
  have own: "\<exists>e. entry (loadPendingOrders deps now m) (sideshiftOrderId ord) = Some e \<and>
           lastStatus e = Order.status ord"
    if "getPendingOrders deps = Inr orders" and "distinct (map sideshiftOrderId orders)"
      and "ord \<in> set orders" for ord
    using loaded [OF that(1,3)] filter_distinct_key [OF that(2,3)] by simp
  have failed: "tracked (loadPendingOrders deps now m) = tracked m \<and>
      objects (loadPendingOrders deps now m) = objects m"
    if "getPendingOrders deps = Inl err"
    using that by (simp add: loadPendingOrders_def call_def)
  from loaded own failed show ?thesis by blast
qed

theorem loadPendingOrders_reconciles_witness:
  "tracked_has (loadPendingOrders
      (storageWith (Inr [createMockOrder ''order-a'' ''waiting'', createMockOrder ''order-b'' ''processing'']))
      5000 newOrderMonitor) ''order-a'' \<and>
   map_option lastStatus (entry (loadPendingOrders
      (storageWith (Inr [createMockOrder ''order-a'' ''waiting'', createMockOrder ''order-b'' ''processing'']))
      5000 newOrderMonitor) ''order-a'') = Some ''waiting'' \<and>
   map_option lastStatus (entry (loadPendingOrders
      (storageWith (Inr [createMockOrder ''order-a'' ''waiting'', createMockOrder ''order-b'' ''processing'']))
      5000 newOrderMonitor) ''order-b'') = Some ''processing'' \<and>
   tracked (loadPendingOrders (storageWith (Inl (Error ''DB down''))) 5000 newOrderMonitor) = []"
proof -
  let ?rows = "[createMockOrder ''order-a'' ''waiting'', createMockOrder ''order-b'' ''processing'']"
  have rows: "getPendingOrders (storageWith (Inr ?rows)) = Inr ?rows"
    and down: "getPendingOrders (storageWith (Inl (Error ''DB down''))) = Inl (Error ''DB down'')"
    by (simp_all add: storageWith_def)
  have dist: "distinct (map sideshiftOrderId ?rows)"
    by (simp add: createMockOrder_def)
  note ok = loadPendingOrders_reconciles
    [OF wf_new, of "storageWith (Inr ?rows)" ?rows 5000, THEN conjunct1, rule_format, OF rows]
  note ko = loadPendingOrders_reconciles
    [OF wf_new, of "storageWith (Inl (Error ''DB down''))" _ 5000 "Error ''DB down''",
     THEN conjunct2, rule_format, OF down]
  from ok [THEN conjunct1] have "tracked_has (loadPendingOrders (storageWith (Inr ?rows)) 5000 newOrderMonitor) ''order-a''"
    by (simp add: createMockOrder_def)
  moreover have "map_option lastStatus (entry (loadPendingOrders (storageWith (Inr ?rows)) 5000 newOrderMonitor) ''order-a'') = Some ''waiting''"
    using ok [THEN conjunct2, rule_format, OF dist, of "createMockOrder ''order-a'' ''waiting''"]
    by (auto simp: createMockOrder_def)
  moreover have "map_option lastStatus (entry (loadPendingOrders (storageWith (Inr ?rows)) 5000 newOrderMonitor) ''order-b'') = Some ''processing''"
    using ok [THEN conjunct2, rule_format, OF dist, of "createMockOrder ''order-b'' ''processing''"]
    by (auto simp: createMockOrder_def)
  moreover from ko have "tracked (loadPendingOrders (storageWith (Inl (Error ''DB down''))) 5000 newOrderMonitor) = []"
    by (simp add: newOrderMonitor_def)
  ultimately show ?thesis by simp
qed

subsection \<open>The concurrency cap\<close>

lemma wf_loadPendingOrders: "wf m \<Longrightarrow> wf (loadPendingOrders deps now m)"
  by (simp add: loadPendingOrders_def wf_loadAll wf_call split: sum.splits)

lemma loadOne_activePollCount: "activePollCount (loadOne now ord m) = activePollCount m"
  by (simp add: loadOne_def trackOrder_def Let_def split: option.splits)

lemma loadAll_activePollCount: "activePollCount (fold (loadOne now) ords m) = activePollCount m"
  by (induction ords arbitrary: m) (simp_all add: loadOne_activePollCount)

lemma loadPendingOrders_activePollCount:
  "activePollCount (loadPendingOrders deps now m) = activePollCount m"
  by (simp add: loadPendingOrders_def loadAll_activePollCount call_def split: sum.splits)

lemma api_activePollCount:
  "activePollCount (start m) = activePollCount m"
  "activePollCount (stop m) = activePollCount m"
  "activePollCount (trackOrder oid tid created now m) = activePollCount m"
  "activePollCount (untrackOrder oid m) = activePollCount m"
  by (simp_all add: start_def stop_def trackOrder_def untrackOrder_def)

lemma length_batch:
  "activePollCount m \<le> MAX_CONCURRENT \<Longrightarrow>
     int (length (batch now m)) \<le> MAX_CONCURRENT - activePollCount m"
  by (simp add: batch_def slice0_def)

text \<open>What holds in every configuration of a run.\<close>

lemma step_invariant:
  assumes "step s s'"
    and "wf (fst s) \<and> activePollCount (fst s) = int (length (snd s)) \<and>
         int (length (snd s)) \<le> MAX_CONCURRENT"
  shows "wf (fst s') \<and> activePollCount (fst s') = int (length (snd s')) \<and>
         int (length (snd s')) \<le> MAX_CONCURRENT"
  using assms
proof (induction rule: step.induct)
  case (step_tick m ps now)
  then have "int (length (batch now m)) \<le> MAX_CONCURRENT - activePollCount m"
    by (intro length_batch) simp
  with step_tick show ?case
    by (simp add: wf_tick_dispatch tick_dispatch_frame)
next
  case (step_fetched i ps r t res m m' c)
  from step_fetched(3) have m': "m' = fst (pollOrder_fetched t r res m)"
    and c: "c = snd (pollOrder_fetched t r res m)" by simp_all
  show ?case
  proof (cases c)
    case None
    with c have "snd (pollOrder_fetched t r res m) = None" by simp
    with step_fetched(1,4) None show ?thesis
      by (simp add: m' wf_pollOrder_fetched pollOrder_fetched_activePollCount)
  next
    case (Some p)
    with c have "snd (pollOrder_fetched t r res m) = Some p" by simp
    with step_fetched(1,4) Some show ?thesis
      by (simp add: m' wf_pollOrder_fetched pollOrder_fetched_activePollCount)
  qed
next
  case (step_written i ps r oldStatus newStatus st m res cb)
  then show ?case
    by (simp add: wf_pollOrder_written pollOrder_written_activePollCount)
next
  case (step_start m ps)
  then show ?case by (simp add: wf_start api_activePollCount)
next
  case (step_stop m ps)
  then show ?case by (simp add: wf_stop api_activePollCount)
next
  case (step_trackOrder m ps oid tid created now)
  then show ?case by (simp add: wf_trackOrder api_activePollCount)
next
  case (step_untrackOrder m ps oid)
  then show ?case by (simp add: wf_untrackOrder api_activePollCount)
next
  case (step_loadPendingOrders m ps deps now)
  then show ?case by (simp add: wf_loadPendingOrders loadPendingOrders_activePollCount)
qed

lemma reachable_invariant:
  "reachable s \<Longrightarrow>
     wf (fst s) \<and> activePollCount (fst s) = int (length (snd s)) \<and>
     int (length (snd s)) \<le> MAX_CONCURRENT"
proof (induction rule: reachable.induct)
  case reachable_new
  show ?case by (simp add: wf_new) (simp add: newOrderMonitor_def MAX_CONCURRENT_def)
next
  case (reachable_step s s')
  from reachable_step(2,3) show ?case by (rule step_invariant)
qed

text \<open>
  C5. In every configuration that a run can reach, with ticks, resumptions of suspended polls
  and calls of the public interface interleaved in any order, the counter of active polls
  equals the number of polls under way and is at most \<open>MAX_CONCURRENT\<close>, which is 5. A tick
  in such a configuration dispatches at most 5 orders and only as many as the polls under
  way leave room for, so the bound holds again after it; dispatching changes neither the
  map nor any tracked object. An order that is due but left out of the batch has, at the end
  of the tick, the object it had and its place in the map, and every later tick at which it
  is due selects it again.
\<close>

theorem concurrency_cap:
  assumes "reachable (m, ps)"
  shows "activePollCount m = int (length ps) \<and>
         int (length ps) \<le> MAX_CONCURRENT \<and>
         int (length (batch now m)) \<le> 5 \<and>
         int (length ps) + int (length (batch now m)) \<le> MAX_CONCURRENT \<and>
         tracked (tick_dispatch now m) = tracked m \<and>
         objects (tick_dispatch now m) = objects m \<and>
         activePollCount (tick_dispatch now m) = int (length (ps @ map AwaitFetch (batch now m))) \<and>
         (\<forall>r \<in> set (toPoll now m). r \<notin> set (batch now m) \<longrightarrow>
            objects (tick deps now clock m) r = objects m r \<and>
            (orderId (objects m r), r) \<in> set (tracked (tick deps now clock m)) \<and>
            (\<forall>later. due later (objects m r) \<longrightarrow> r \<in> set (toPoll later (tick deps now clock m))))"
proof -
  from reachable_invariant [OF assms]
  have wf: "wf m" and count: "activePollCount m = int (length ps)"
    and cap: "int (length ps) \<le> MAX_CONCURRENT" by simp_all
  have room: "int (length (batch now m)) \<le> MAX_CONCURRENT - activePollCount m"
    using count cap by (intro length_batch) simp
  have excess: "objects (tick deps now clock m) r = objects m r \<and>
      (orderId (objects m r), r) \<in> set (tracked (tick deps now clock m)) \<and>
      (\<forall>later. due later (objects m r) \<longrightarrow> r \<in> set (toPoll later (tick deps now clock m)))"
    if r: "r \<in> set (toPoll now m)" and out: "r \<notin> set (batch now m)" for r
  proof -
    from r set_toPoll obtain k where k: "(k, r) \<in> set (tracked m)" by fastforce
    with wf have key: "orderId (objects m r) = k" by (auto simp: wf_def)
    note unchanged = view_eqD [OF tick_view_out [OF wf k out, of deps clock]]
    have same: "objects (tick deps now clock m) r = objects m r"
      by (rule unchanged(1))
    have kept: "(k, r) \<in> set (tracked (tick deps now clock m))"
      using unchanged(2) k by simp
    then have "r \<in> set (toPoll later (tick deps now clock m))" if "due later (objects m r)" for later
      using that same by (force simp: toPoll_def)
    with same kept key show ?thesis by simp
  qed
  from count cap room excess show ?thesis
    by (simp add: tick_dispatch_frame MAX_CONCURRENT_def)
qed

lemma sixOrders_facts:
  "tracked sixOrders = [(''o1'', 0), (''o2'', 1), (''o3'', 2), (''o4'', 3), (''o5'', 4), (''o6'', 5)]"
  "tickTimer sixOrders" "activePollCount sixOrders = 0"
  "\<And>r. r < 6 \<Longrightarrow> createdAt (objects sixOrders r) = 0 \<and> lastChecked (objects sixOrders r) = 0"
  "orderId (objects sixOrders 5) = ''o6''"
  by (simp_all add: sixOrders_def trackOrder_def start_def newOrderMonitor_def tracked_has_def
      tracked_get_def)

lemma sixOrders_reachable: "reachable (sixOrders, [])"
proof -
  note track = reachable_step [OF _ step_trackOrder]
  have "reachable (start newOrderMonitor, [])"
    by (rule reachable_step [OF reachable_new step_start])
  from this [THEN track, THEN track, THEN track, THEN track, THEN track, THEN track]
  show ?thesis by (simp add: sixOrders_def)
qed

lemma sixOrders_toPoll: "toPoll 20000 sixOrders = [0, 1, 2, 3, 4, 5]"
  by (simp add: toPoll_def due_def getBackoffInterval_def sixOrders_facts Let_def)

lemma sixOrders_batch: "batch 20000 sixOrders = [0, 1, 2, 3, 4]"
  by (simp add: batch_def sixOrders_toPoll slice0_def MAX_CONCURRENT_def sixOrders_facts)

theorem concurrency_cap_witness:
  "reachable (sixOrders, []) \<and>
   toPoll 20000 sixOrders = [0, 1, 2, 3, 4, 5] \<and>
   batch 20000 sixOrders = [0, 1, 2, 3, 4] \<and>
   reachable (tick_dispatch 20000 sixOrders, map AwaitFetch [0, 1, 2, 3, 4]) \<and>
   activePollCount (tick_dispatch 20000 sixOrders) = 5 \<and>
   batch 30000 (tick_dispatch 20000 sixOrders) = [] \<and>
   objects (tick (createMockDeps (resolves ''settled'') (Inr ()) Returns) 20000 (\<lambda>r. 20500) sixOrders) 5
     = objects sixOrders 5 \<and>
   (''o6'', 5) \<in> set (tracked (tick (createMockDeps (resolves ''settled'') (Inr ()) Returns)
       20000 (\<lambda>r. 20500) sixOrders)) \<and>
   5 \<in> set (toPoll 30000 (tick (createMockDeps (resolves ''settled'') (Inr ()) Returns)
       20000 (\<lambda>r. 20500) sixOrders))"
proof -
  let ?deps = "createMockDeps (resolves ''settled'') (Inr ()) Returns"
  have reach2: "reachable (tick_dispatch 20000 sixOrders, map AwaitFetch [0, 1, 2, 3, 4])"
    using reachable_step [OF sixOrders_reachable step_tick [of sixOrders "[]" 20000]]
    by (simp add: sixOrders_facts sixOrders_batch)
  note first = concurrency_cap [OF sixOrders_reachable, of 20000 ?deps "\<lambda>r. 20500"]
  note second = concurrency_cap [OF reach2, of 30000]
  from first have count: "activePollCount (tick_dispatch 20000 sixOrders) = 5"
    by (simp add: sixOrders_batch)
  from second have none: "batch 30000 (tick_dispatch 20000 sixOrders) = []"
    by (simp add: MAX_CONCURRENT_def)
  have due: "due 30000 (objects sixOrders 5)"
    by (simp add: due_def getBackoffInterval_def sixOrders_facts Let_def)
  from first have
    "\<forall>r \<in> set (toPoll 20000 sixOrders). r \<notin> set (batch 20000 sixOrders) \<longrightarrow>
        objects (tick ?deps 20000 (\<lambda>r. 20500) sixOrders) r = objects sixOrders r \<and>
        (orderId (objects sixOrders r), r) \<in> set (tracked (tick ?deps 20000 (\<lambda>r. 20500) sixOrders)) \<and>
        (\<forall>later. due later (objects sixOrders r) \<longrightarrow>
           r \<in> set (toPoll later (tick ?deps 20000 (\<lambda>r. 20500) sixOrders)))"
    by simp
  then have sixth: "objects (tick ?deps 20000 (\<lambda>r. 20500) sixOrders) 5 = objects sixOrders 5"
    "(''o6'', 5) \<in> set (tracked (tick ?deps 20000 (\<lambda>r. 20500) sixOrders))"
    "5 \<in> set (toPoll 30000 (tick ?deps 20000 (\<lambda>r. 20500) sixOrders))"
    using due by (simp_all add: sixOrders_toPoll sixOrders_batch sixOrders_facts)
  from sixOrders_reachable sixOrders_toPoll sixOrders_batch reach2 count none sixth
  show ?thesis by simp
qed

subsection \<open>Tracking twice\<close>

text \<open>
  C8. \<open>trackOrder\<close> is idempotent: for an order id that is already in the map the call
  returns the state it was given, so the count and every field of the existing entry are
  as before; tracking an id twice is the same as tracking it once; the call keeps the order
  ids of the map distinct, and they are distinct in every configuration a run can reach.
\<close>

theorem trackOrder_idempotent:
  "(tracked_has m oid \<longrightarrow>
      trackOrder oid tid' created' now' m = m) \<and>
   trackOrder oid tid' created' now' (trackOrder oid tid created now m)
     = trackOrder oid tid created now m \<and>
   trackedCount (trackOrder oid tid' created' now' (trackOrder oid tid created now m))
     = trackedCount (trackOrder oid tid created now m) \<and>
   (distinct (getTrackedOrderIds m) \<longrightarrow>
      distinct (getTrackedOrderIds (trackOrder oid tid created now m))) \<and>
   (reachable (m, ps) \<longrightarrow> distinct (getTrackedOrderIds m))"
proof -
  have again: "tracked_has (trackOrder oid tid created now m) oid"
    by (simp add: trackOrder_def tracked_has_iff)
  have noop: "trackOrder oid tid' created' now' m' = m'" if "tracked_has m' oid" for m'
    using that by (simp add: trackOrder_def)
  have kept: "distinct (getTrackedOrderIds (trackOrder oid tid created now m))"
    if "distinct (getTrackedOrderIds m)"
    using that by (auto simp: trackOrder_def getTrackedOrderIds_def tracked_has_iff)
  have ever: "distinct (getTrackedOrderIds m)" if "reachable (m, ps)"
    using reachable_invariant [OF that] by (simp add: wf_def getTrackedOrderIds_def)
  from again noop kept ever show ?thesis by simp
qed

theorem trackOrder_idempotent_witness:
  "tracked_has oneOrder ''order-1'' \<and>
   trackOrder ''order-1'' 200 (Some 5) 7 oneOrder = oneOrder \<and>
   entry (trackOrder ''order-1'' 200 (Some 5) 7 oneOrder) ''order-1'' =
     Some \<lparr>orderId = ''order-1'', telegramId = 100, createdAt = 0, lastChecked = 0,
           lastStatus = ''pending''\<rparr> \<and>
   trackedCount (trackOrder ''order-1'' 200 (Some 5) 7 oneOrder) = 1 \<and>
   distinct (getTrackedOrderIds (trackOrder ''order-2'' 200 None 7 oneOrder)) \<and>
   reachable (oneOrder, [])"
proof -
  have has: "tracked_has oneOrder ''order-1''"
    by (simp add: oneOrder_def trackOrder_def newOrderMonitor_def tracked_has_def tracked_get_def)
  have reach: "reachable (oneOrder, [])"
    unfolding oneOrder_def by (rule reachable_step [OF reachable_new step_trackOrder])
  have dist: "distinct (getTrackedOrderIds oneOrder)"
    using trackOrder_idempotent [of oneOrder _ _ _ _ _ _ _ "[]"] reach by simp
  have same: "trackOrder ''order-1'' 200 (Some 5) 7 oneOrder = oneOrder"
    using trackOrder_idempotent [of oneOrder "''order-1''" 200 "Some 5" 7] has by simp
  have "distinct (getTrackedOrderIds (trackOrder ''order-2'' 200 None 7 oneOrder))"
    using trackOrder_idempotent [of oneOrder "''order-2''" _ _ _ 200 None 7] dist by simp
  with has same reach show ?thesis
    by (simp add: oneOrder_def trackOrder_def newOrderMonitor_def tracked_has_def tracked_get_def
        entry_def trackedCount_def)
qed

end
